(* ===== verification/Prelude.thy ===== *)
theory Prelude
  imports Complex_Main "HOL-Library.Code_Target_Nat"
begin

text \<open>
  Shared vocabulary of the development: the exception monad in which JavaScript
  evaluation is modelled (a value of \<open>'e + 'a\<close>, \<open>Inl\<close> a thrown error), decimal
  printing of integers as JavaScript's \<open>Number::toString\<close> prints integral values,
  the ASCII digit class used by the regular expression \<open>\D\<close>, and the lemma
  collections the component theories use.
\<close>

named_theorems js_simps \<open>evaluation rules of the JavaScript model\<close>

type_synonym millis = int

subsection \<open>Exceptions: sequencing of evaluation steps that may throw\<close>

definition ebind :: "'e + 'a \<Rightarrow> ('a \<Rightarrow> 'e + 'b) \<Rightarrow> 'e + 'b" where
  "ebind m f = (case m of Inl e \<Rightarrow> Inl e | Inr a \<Rightarrow> f a)"

lemma ebind_Inl [simp, js_simps]: "ebind (Inl e) f = Inl e"
  by (simp add: ebind_def)

lemma ebind_Inr [simp, js_simps]: "ebind (Inr a) f = f a"
  by (simp add: ebind_def)

lemma ebind_eq_Inr:
  "ebind m f = Inr b \<longleftrightarrow> (\<exists>a. m = Inr a \<and> f a = Inr b)"
  by (cases m) simp_all

lemma ebind_eq_Inl:
  "ebind m f = Inl e \<longleftrightarrow> m = Inl e \<or> (\<exists>a. m = Inr a \<and> f a = Inl e)"
  by (cases m) simp_all

text \<open>The first present value of a list, as a left-to-right evaluation finds the first throw.\<close>

fun first_some :: "'a option list \<Rightarrow> 'a option" where
  "first_some [] = None"
| "first_some (Some x # _) = Some x"
| "first_some (None # xs) = first_some xs"

lemma first_some_None_iff: "first_some xs = None \<longleftrightarrow> (\<forall>x \<in> set xs. x = None)"
  by (induction xs rule: first_some.induct) auto

lemma dropWhile_none: "\<forall>c \<in> set xs. \<not> P c \<Longrightarrow> dropWhile P xs = xs"
  by (induction xs) auto

text \<open>Lists of results: \<open>those\<close> collects a list of options, \<open>list_all2\<close> relates a list to its images.\<close>

lemma those_map_Some: "those (map f xs) = Some ys \<longleftrightarrow> list_all2 (\<lambda>x y. f x = Some y) xs ys"
  by (induction xs arbitrary: ys) (auto simp: list_all2_Cons1 split: option.splits)

lemma list_all2_choice: "(\<forall>x \<in> set xs. \<exists>y. Q x y) \<Longrightarrow> \<exists>ys. list_all2 Q xs ys"
  by (induction xs) (auto simp: list_all2_Cons1)

lemma list_all2_right: "list_all2 P xs ys \<Longrightarrow> y \<in> set ys \<Longrightarrow> \<exists>x. P x y"
  by (induction xs arbitrary: ys) (auto simp: list_all2_Cons1)

subsection \<open>Integer division by a constant, one step at a time\<close>

lemma div_succ_int:
  assumes "1 < (k::int)"
  shows "(x + 1) div k = x div k + (if (x + 1) mod k = 0 then 1 else 0)"
proof -
  have a: "(x + 1) div k = x div k + (x mod k + 1) div k"
    using div_add1_eq [of x 1 k] assms by simp
  have b: "(x + 1) mod k = (x mod k + 1) mod k"
    by (simp add: mod_add_left_eq)
  have "0 \<le> x mod k" "x mod k < k" using assms by simp_all
  then consider "x mod k + 1 = k" | "0 < x mod k + 1 \<and> x mod k + 1 < k" by linarith
  then show ?thesis
  proof cases
    case 1
    then show ?thesis using a b assms by simp
  next
    case 2
    then show ?thesis using a b by simp
  qed
qed

lemma mod_sub_multiple: "(y - c * k) mod k = (y::int) mod k"
proof -
  have "(y - c * k) mod k = (y mod k - (c * k) mod k) mod k" by (rule mod_diff_eq [symmetric])
  then show ?thesis by simp
qed

lemma mod_eq_0_trans: "(y::int) mod m = 0 \<Longrightarrow> k dvd m \<Longrightarrow> y mod k = 0"
  by (meson dvd_trans mod_eq_0_iff_dvd)

subsection \<open>ASCII decimal digits\<close>

definition is_dec_digit :: "char \<Rightarrow> bool" where
  "is_dec_digit c \<longleftrightarrow> (48::nat) \<le> of_char c \<and> (of_char c :: nat) \<le> 57"

definition digit_val :: "char \<Rightarrow> nat" where
  "digit_val c = of_char c - 48"

definition digit_char :: "nat \<Rightarrow> char" where
  "digit_char d = char_of (48 + d)"

lemma digit_char_is_dec_digit [simp]: "d < 10 \<Longrightarrow> is_dec_digit (digit_char d)"
  by (simp add: is_dec_digit_def digit_char_def)

lemma digit_val_digit_char [simp]: "d < 10 \<Longrightarrow> digit_val (digit_char d) = d"
  by (simp add: digit_val_def digit_char_def)

lemma digit_not_sign: "is_dec_digit c \<Longrightarrow> c \<noteq> CHR ''-'' \<and> c \<noteq> CHR ''+'' \<and> c \<noteq> CHR ''.''"
  by (auto simp: is_dec_digit_def)

lemma digit_val_less: "is_dec_digit c \<Longrightarrow> digit_val c < 10"
  unfolding is_dec_digit_def digit_val_def by arith

subsection \<open>Decimal printing and reading of naturals\<close>

fun nat_to_dec :: "nat \<Rightarrow> string" where
  "nat_to_dec n = (if n < 10 then [digit_char n] else nat_to_dec (n div 10) @ [digit_char (n mod 10)])"

declare nat_to_dec.simps [simp del]

definition dec_val :: "string \<Rightarrow> nat" where
  "dec_val s = foldl (\<lambda>acc c. 10 * acc + digit_val c) 0 s"

lemma dec_val_snoc [simp]: "dec_val (s @ [c]) = 10 * dec_val s + digit_val c"
  by (simp add: dec_val_def)

lemma dec_val_Nil [simp]: "dec_val [] = 0"
  by (simp add: dec_val_def)

lemma dec_val_single [simp]: "dec_val [c] = digit_val c"
  by (simp add: dec_val_def)

lemma nat_to_dec_ne [simp]: "nat_to_dec n \<noteq> []"
  by (subst nat_to_dec.simps) simp

lemma nat_to_dec_digits: "\<forall>c \<in> set (nat_to_dec n). is_dec_digit c"
proof (induction n rule: nat_to_dec.induct)
  case (1 n)
  then show ?case by (subst nat_to_dec.simps) auto
qed

lemma dec_val_nat_to_dec [simp]: "dec_val (nat_to_dec n) = n"
proof (induction n rule: nat_to_dec.induct)
  case (1 n)
  then show ?case by (subst nat_to_dec.simps) simp
qed

lemma nat_to_dec_hd: "n \<noteq> 0 \<Longrightarrow> hd (nat_to_dec n) \<noteq> CHR ''0''"
proof (induction n rule: nat_to_dec.induct)
  case (1 n)
  show ?case
  proof (cases "n < 10")
    case True
    with "1.prems" show ?thesis
      by (subst nat_to_dec.simps) (simp add: digit_char_def char_of_eq_iff take_bit_eq_mod)
  next
    case False
    then have "n div 10 \<noteq> 0" by simp
    with False "1.IH" show ?thesis by (subst nat_to_dec.simps) simp
  qed
qed

definition int_to_dec :: "int \<Rightarrow> string" where
  "int_to_dec i = (if i < 0 then CHR ''-'' # nat_to_dec (nat (- i)) else nat_to_dec (nat i))"

lemma nat_to_dec_inj: "nat_to_dec m = nat_to_dec n \<Longrightarrow> m = n"
  by (metis dec_val_nat_to_dec)

lemma int_to_dec_inj: "int_to_dec i = int_to_dec j \<longleftrightarrow> i = j"
proof
  assume eq: "int_to_dec i = int_to_dec j"
  have hd_digit: "hd (nat_to_dec n) \<noteq> CHR ''-''" for n
    using nat_to_dec_digits [of n] hd_in_set [OF nat_to_dec_ne] digit_not_sign by blast
  show "i = j"
  proof (cases "i < 0"; cases "j < 0")
    assume "i < 0" "j < 0"
    with eq show ?thesis by (auto simp: int_to_dec_def dest: nat_to_dec_inj)
  next
    assume "i < 0" "\<not> j < 0"
    with eq hd_digit [of "nat j"] show ?thesis by (simp add: int_to_dec_def) (metis list.sel(1))
  next
    assume "\<not> i < 0" "j < 0"
    with eq hd_digit [of "nat i"] show ?thesis by (simp add: int_to_dec_def)
  next
    assume "\<not> i < 0" "\<not> j < 0"
    with eq show ?thesis by (auto simp: int_to_dec_def dest: nat_to_dec_inj)
  qed
qed simp

text \<open>Left padding with zeros to a fixed width, as \<open>toISOString\<close> formats fields.\<close>

definition pad_dec :: "nat \<Rightarrow> nat \<Rightarrow> string" where
  "pad_dec w n = (let s = nat_to_dec n in replicate (w - length s) CHR ''0'' @ s)"

lemma length_nat_to_dec_le: "n < 10 ^ k \<Longrightarrow> 0 < k \<Longrightarrow> length (nat_to_dec n) \<le> k"
proof (induction n arbitrary: k rule: nat_to_dec.induct)
  case (1 n)
  show ?case
  proof (cases "n < 10")
    case True
    with "1.prems" show ?thesis by (subst nat_to_dec.simps) simp
  next
    case False
    with "1.prems" obtain k' where k: "k = Suc k'" and "0 < k'"
      by (cases k; cases "k - 1") auto
    moreover from "1.prems" k have "n div 10 < 10 ^ k'" by simp
    ultimately have "length (nat_to_dec (n div 10)) \<le> k'"
      using False "1.IH" by blast
    with False k show ?thesis by (subst nat_to_dec.simps) simp
  qed
qed

lemma length_pad_dec: "n < 10 ^ w \<Longrightarrow> 0 < w \<Longrightarrow> length (pad_dec w n) = w"
  using length_nat_to_dec_le [of n w] by (simp add: pad_dec_def Let_def)

lemma pad_dec_digits: "\<forall>c \<in> set (pad_dec w n). is_dec_digit c"
  using nat_to_dec_digits [of n]
  by (auto simp: pad_dec_def Let_def is_dec_digit_def)

lemma dec_val_Cons_zero [simp]: "dec_val (CHR ''0'' # s) = dec_val s"
  by (simp add: dec_val_def digit_val_def)

lemma dec_val_replicate_zero [simp]: "dec_val (replicate k CHR ''0'' @ s) = dec_val s"
  by (induction k) simp_all

lemma dec_val_pad_dec [simp]: "dec_val (pad_dec w n) = n"
  by (simp add: pad_dec_def Let_def)

lemma foldl_dec_acc: "foldl (\<lambda>acc c. 10 * acc + digit_val c) a ys = a * 10 ^ length ys + dec_val ys"
proof (induction ys arbitrary: a)
  case Nil
  then show ?case by simp
next
  case (Cons y ys)
  have "dec_val (y # ys) = digit_val y * 10 ^ length ys + dec_val ys"
    using Cons.IH [of "digit_val y"] by (simp add: dec_val_def)
  with Cons.IH [of "10 * a + digit_val y"] show ?case by (simp add: algebra_simps)
qed

lemma dec_val_append: "dec_val (xs @ ys) = dec_val xs * 10 ^ length ys + dec_val ys"
  unfolding dec_val_def foldl_append by (rule foldl_dec_acc [unfolded dec_val_def])

lemma punct_not_digit [simp]: "\<not> is_dec_digit CHR ''.''" "\<not> is_dec_digit CHR ''-''"
  by (simp_all add: is_dec_digit_def)

end
