(* ===== verification/JsNumber.thy ===== *)
theory JsNumber
  imports Prelude
begin

text \<open>
  JavaScript numbers as the handler uses them: the amount \<open>valor\<close> of the request
  body is converted by \<open>valor * 100\<close> (ToNumeric, then Number::multiply) and
  \<open>Math.round\<close> (src/api/gerar-pix.js, lines 45 and 51), and the comparison
  \<open>data.qr_codes.length > 0\<close> (line 72) compares a number with 0.
  A finite number is a rational value, and the operations here compute the
  exact mathematical values of ECMA-262 (the value of a literal, the exact
  product); theory Binary64 rounds them to IEEE-754 binary64 (\<open>number_value\<close>,
  with its overflow to an infinity), and the amount of the order is computed
  there.  The sign of zero is not represented: \<open>JSON.stringify\<close> prints
  \<open>0\<close> either way.  \<open>NaN\<close> and the infinities are kept as values of their own.
  String conversion follows the ECMAScript grammar StringNumericLiteral on
  8-bit code units.
\<close>

datatype jsnum = Fin rat | NaN | PosInf | NegInf

definition is_finite :: "jsnum \<Rightarrow> bool" where
  "is_finite n \<longleftrightarrow> (case n of Fin _ \<Rightarrow> True | _ \<Rightarrow> False)"

lemma is_finite_simps [simp, js_simps]:
  "is_finite (Fin q)" "\<not> is_finite NaN" "\<not> is_finite PosInf" "\<not> is_finite NegInf"
  by (simp_all add: is_finite_def)

fun js_neg :: "jsnum \<Rightarrow> jsnum" where
  "js_neg (Fin q) = Fin (- q)"
| "js_neg NaN = NaN"
| "js_neg PosInf = NegInf"
| "js_neg NegInf = PosInf"

subsection \<open>Number::multiply (ECMA-262 6.1.6.1.4)\<close>

text \<open>The sign of an infinite or finite operand, as the infinity cases use it.\<close>

fun inf_times :: "bool \<Rightarrow> jsnum \<Rightarrow> jsnum" where
  "inf_times pos (Fin q) = (if q = 0 then NaN else if (0 < q) = pos then PosInf else NegInf)"
| "inf_times pos NaN = NaN"
| "inf_times pos PosInf = (if pos then PosInf else NegInf)"
| "inf_times pos NegInf = (if pos then NegInf else PosInf)"

fun js_mult :: "jsnum \<Rightarrow> jsnum \<Rightarrow> jsnum" where
  "js_mult NaN y = NaN"
| "js_mult PosInf y = inf_times True y"
| "js_mult NegInf y = inf_times False y"
| "js_mult (Fin p) (Fin q) = Fin (p * q)"
| "js_mult (Fin p) NaN = NaN"
| "js_mult (Fin p) PosInf = inf_times True (Fin p)"
| "js_mult (Fin p) NegInf = inf_times False (Fin p)"

subsection \<open>Math.round (ECMA-262 21.3.2.28)\<close>

text \<open>
  \<open>Math.round\<close> returns the integral number closest to its argument, ties
  towards \<open>+\<infinity>\<close>; \<open>NaN\<close> and the infinities are returned unchanged.  On the exact
  value this is \<open>\<lfloor>x + 1/2\<rfloor>\<close> for every finite \<open>x\<close>, including the cases the
  standard lists separately (\<open>0 < x < 0.5\<close> gives \<open>+0\<close>, \<open>-0.5 \<le> x < 0\<close>
  gives \<open>-0\<close>).
\<close>

fun math_round :: "jsnum \<Rightarrow> jsnum" where
  "math_round (Fin q) = Fin (of_int \<lfloor>q + 1/2\<rfloor>)"
| "math_round n = n"

text \<open>Relational comparison \<open>x < y\<close> on numbers (IsLessThan on Number values).\<close>

fun js_less :: "jsnum \<Rightarrow> jsnum \<Rightarrow> bool" where
  "js_less NaN _ = False"
| "js_less _ NaN = False"
| "js_less (Fin p) (Fin q) = (p < q)"
| "js_less NegInf y = (y \<noteq> NegInf)"
| "js_less PosInf _ = False"
| "js_less _ PosInf = True"
| "js_less _ NegInf = False"

subsection \<open>StringToNumber (ECMA-262 7.1.4.1.1)\<close>

text \<open>
  White space and line terminators representable in 8-bit code units: TAB, LF,
  VT, FF, CR, SPACE and NO-BREAK SPACE.
\<close>

definition js_space :: "char \<Rightarrow> bool" where
  "js_space c \<longleftrightarrow> (of_char c :: nat) \<in> {9, 10, 11, 12, 13, 32, 160}"

definition js_trim :: "string \<Rightarrow> string" where
  "js_trim s = rev (dropWhile js_space (rev (dropWhile js_space s)))"

text \<open>Digit values in radix 2, 8, 10 and 16.\<close>

definition radix_digit :: "nat \<Rightarrow> char \<Rightarrow> nat option" where
  "radix_digit r c =
     (let n = (of_char c :: nat);
          v = (if 48 \<le> n \<and> n \<le> 57 then Some (n - 48)
               else if 97 \<le> n \<and> n \<le> 102 then Some (n - 87)
               else if 65 \<le> n \<and> n \<le> 70 then Some (n - 55)
               else None)
      in case v of Some d \<Rightarrow> if d < r then Some d else None | None \<Rightarrow> None)"

fun radix_val_acc :: "nat \<Rightarrow> nat \<Rightarrow> string \<Rightarrow> nat option" where
  "radix_val_acc r acc [] = Some acc"
| "radix_val_acc r acc (c # cs) =
     (case radix_digit r c of None \<Rightarrow> None | Some d \<Rightarrow> radix_val_acc r (r * acc + d) cs)"

definition radix_val :: "nat \<Rightarrow> string \<Rightarrow> nat option" where
  "radix_val r s = (if s = [] then None else radix_val_acc r 0 s)"

text \<open>
  ExponentPart: \<open>e\<close> or \<open>E\<close>, an optional sign, one or more decimal digits, and
  nothing after them.  The empty remainder is exponent 0.
\<close>

definition exponent_part :: "string \<Rightarrow> int option" where
  "exponent_part s =
     (if s = [] then Some 0
      else if hd s \<noteq> CHR ''e'' \<and> hd s \<noteq> CHR ''E'' then None
      else let t = tl s;
               (sg, ds) = (if t \<noteq> [] \<and> hd t = CHR ''-'' then (-1, tl t)
                           else if t \<noteq> [] \<and> hd t = CHR ''+'' then (1, tl t) else (1, t))
           in map_option (\<lambda>n. sg * int n) (radix_val 10 ds))"

text \<open>
  StrUnsignedDecimalLiteral: \<open>Infinity\<close>, or digits with an optional fraction and
  an optional exponent, with at least one digit before or after the point.  The
  value is the exact mathematical value of the literal.
\<close>

definition unsigned_decimal :: "string \<Rightarrow> jsnum option" where
  "unsigned_decimal s =
     (if s = ''Infinity'' then Some PosInf
      else
        let ip = takeWhile is_dec_digit s;
            r1 = dropWhile is_dec_digit s;
            has_point = (r1 \<noteq> [] \<and> hd r1 = CHR ''.'');
            fp = (if has_point then takeWhile is_dec_digit (tl r1) else []);
            r2 = (if has_point then dropWhile is_dec_digit (tl r1) else r1)
        in if ip = [] \<and> fp = [] then None
           else case exponent_part r2 of
                  None \<Rightarrow> None
                | Some e \<Rightarrow>
                    let m = of_nat (dec_val (ip @ fp)) :: rat;
                        x = e - int (length fp)
                    in Some (Fin (if 0 \<le> x then m * 10 ^ nat x else m / 10 ^ nat (- x))))"

definition decimal_literal :: "string \<Rightarrow> jsnum option" where
  "decimal_literal s =
     (if s \<noteq> [] \<and> hd s = CHR ''-'' then map_option js_neg (unsigned_decimal (tl s))
      else if s \<noteq> [] \<and> hd s = CHR ''+'' then unsigned_decimal (tl s)
      else unsigned_decimal s)"

text \<open>NonDecimalIntegerLiteral: \<open>0x\<close>, \<open>0o\<close>, \<open>0b\<close> (either case), unsigned.\<close>

definition radix_prefix :: "char \<Rightarrow> nat option" where
  "radix_prefix c =
     (if c = CHR ''x'' \<or> c = CHR ''X'' then Some 16
      else if c = CHR ''o'' \<or> c = CHR ''O'' then Some 8
      else if c = CHR ''b'' \<or> c = CHR ''B'' then Some 2 else None)"

definition numeric_literal :: "string \<Rightarrow> jsnum option" where
  "numeric_literal s =
     (case s of
        c0 # c1 # rest \<Rightarrow>
          (if c0 = CHR ''0'' \<and> radix_prefix c1 \<noteq> None
           then map_option (\<lambda>n. Fin (of_nat n)) (radix_val (the (radix_prefix c1)) rest)
           else decimal_literal s)
      | _ \<Rightarrow> decimal_literal s)"

definition string_to_number :: "string \<Rightarrow> jsnum" where
  "string_to_number s =
     (let t = js_trim s
      in if t = [] then Fin 0
         else case numeric_literal t of Some n \<Rightarrow> n | None \<Rightarrow> NaN)"

subsection \<open>Properties\<close>

lemma floor_int_plus_half [simp]: "\<lfloor>(of_int k :: rat) + 1/2\<rfloor> = k"
  by (simp add: floor_unique)

lemma math_round_int [simp]: "math_round (Fin (of_int k)) = Fin (of_int k)"
  by simp

text \<open>
  \<open>Math.round\<close> of a finite number is the integer nearest to it, ties
  going up: the unique integer \<open>k\<close> with \<open>x - 1/2 < k \<le> x + 1/2\<close>.
\<close>

theorem math_round_nearest:
  "\<exists>k. math_round (Fin x) = Fin (of_int k) \<and> x - 1/2 < of_int k \<and> of_int k \<le> x + 1/2"
proof -
  let ?k = "\<lfloor>x + 1/2\<rfloor>"
  have "of_int ?k \<le> x + 1/2" by (rule of_int_floor_le)
  moreover have "x + 1/2 < of_int ?k + 1" by (rule floor_correct [THEN conjunct2, simplified])
  ultimately show ?thesis by auto
qed

lemma digit_not_space: "is_dec_digit c \<Longrightarrow> \<not> js_space c"
  by (auto simp: is_dec_digit_def js_space_def)

lemma floor_half [simp]: "\<lfloor>1/2 :: rat\<rfloor> = 0"
  by (simp add: floor_unique)

lemma js_trim_no_space: "\<forall>c \<in> set s. \<not> js_space c \<Longrightarrow> js_trim s = s"
  by (simp add: js_trim_def dropWhile_none)

lemma js_trim_digits:
  assumes "\<forall>c \<in> set s. is_dec_digit c \<or> c = CHR ''-''"
  shows "js_trim s = s"
  using assms by (intro js_trim_no_space) (auto simp: js_space_def is_dec_digit_def)

lemma unsigned_decimal_digits:
  assumes "ds \<noteq> []" and "\<forall>c \<in> set ds. is_dec_digit c"
  shows "unsigned_decimal ds = Some (Fin (of_nat (dec_val ds)))"
proof -
  have "ds \<noteq> ''Infinity''" using assms(2) by (auto simp: is_dec_digit_def)
  moreover have tw: "takeWhile is_dec_digit ds = ds" using assms(2) by (simp add: takeWhile_eq_all_conv)
  ultimately show ?thesis using assms
    by (simp add: unsigned_decimal_def exponent_part_def Let_def tw del: takeWhile_eq_all_conv)
qed

lemma nat_to_dec_no_prefix:
  "nat_to_dec n = c0 # c1 # rest \<Longrightarrow> c0 \<noteq> CHR ''0''"
  using nat_to_dec_hd [of n] by (cases "n = 0") (auto simp: nat_to_dec.simps [of 0] digit_char_def)

lemma unsigned_decimal_point:
  assumes "ip \<noteq> []" and "\<forall>c \<in> set ip. is_dec_digit c" and "\<forall>c \<in> set fp. is_dec_digit c"
  shows "unsigned_decimal (ip @ CHR ''.'' # fp) = Some (Fin (of_nat (dec_val (ip @ fp)) / 10 ^ length fp))"
proof -
  have ne: "ip @ CHR ''.'' # fp \<noteq> ''Infinity''"
    using assms(1,2) by (cases ip) (auto simp: is_dec_digit_def)
  have tw: "takeWhile is_dec_digit (ip @ CHR ''.'' # fp) = ip"
    using assms(2) by (simp add: takeWhile_append2 punct_not_digit)
  have dw: "dropWhile is_dec_digit (ip @ CHR ''.'' # fp) = CHR ''.'' # fp"
    using assms(2) by (simp add: dropWhile_append2 punct_not_digit)
  have tf: "takeWhile is_dec_digit fp = fp" and df: "dropWhile is_dec_digit fp = []"
    using assms(3) by (simp_all add: takeWhile_eq_all_conv dropWhile_eq_Nil_conv)
  have "unsigned_decimal (ip @ CHR ''.'' # fp) =
          Some (Fin (let m = of_nat (dec_val (ip @ fp)) :: rat; x = - int (length fp)
                     in if 0 \<le> x then m * 10 ^ nat x else m / 10 ^ nat (- x)))"
    using assms(1) ne by (simp add: unsigned_decimal_def exponent_part_def Let_def tw dw tf df
                                del: takeWhile_eq_all_conv dropWhile_eq_Nil_conv)
  also have "\<dots> = Some (Fin (of_nat (dec_val (ip @ fp)) / 10 ^ length fp))"
    by (cases fp) (simp_all add: Let_def nat_add_distrib)
  finally show ?thesis .
qed

lemma string_to_number_point:
  assumes "\<forall>c \<in> set fp. is_dec_digit c"
  shows "string_to_number (nat_to_dec i @ CHR ''.'' # fp) = Fin (of_nat i + of_nat (dec_val fp) / 10 ^ length fp)"
proof -
  let ?s = "nat_to_dec i @ CHR ''.'' # fp"
  have digits: "\<forall>c \<in> set (nat_to_dec i). is_dec_digit c" by (rule nat_to_dec_digits)
  obtain c0 cs where c0: "nat_to_dec i = c0 # cs" by (cases "nat_to_dec i") auto
  then have d0: "is_dec_digit c0" using digits by simp
  have trim: "js_trim ?s = ?s"
    using digits assms by (intro js_trim_no_space) (auto simp: js_space_def is_dec_digit_def)
  have lit: "numeric_literal ?s = decimal_literal ?s"
  proof (cases cs)
    case Nil
    then show ?thesis using c0 by (simp add: numeric_literal_def radix_prefix_def)
  next
    case (Cons c1 rest)
    then show ?thesis using c0 nat_to_dec_no_prefix [of i c0 c1 rest] by (simp add: numeric_literal_def)
  qed
  have dec: "decimal_literal ?s = unsigned_decimal ?s"
    using c0 d0 digit_not_sign [OF d0] by (simp add: decimal_literal_def)
  have "(of_nat (dec_val (nat_to_dec i @ fp)) :: rat) / 10 ^ length fp = of_nat i + of_nat (dec_val fp) / 10 ^ length fp"
    by (simp add: dec_val_append field_simps)
  then show ?thesis
    using trim lit dec unsigned_decimal_point [OF nat_to_dec_ne digits assms]
    by (simp add: string_to_number_def)
qed

text \<open>
  The mathematical value StringToNumber reads from the decimal numeral of an
  integer, as \<open>Number::toString\<close> prints it, is that integer; the engine then
  rounds it (\<open>Binary64.to_number64\<close>), which leaves it unchanged up to
  \<open>2\<^sup>5\<^sup>3\<close> only.
\<close>

lemma string_to_number_int_to_dec: "string_to_number (int_to_dec k) = Fin (of_int k)"
proof -
  define n where "n = nat \<bar>k\<bar>"
  have digits: "\<forall>c \<in> set (nat_to_dec n). is_dec_digit c" by (rule nat_to_dec_digits)
  have dec: "decimal_literal (nat_to_dec n) = Some (Fin (of_nat n))"
  proof -
    have "is_dec_digit (hd (nat_to_dec n))"
      using digits hd_in_set [OF nat_to_dec_ne] by blast
    then have "hd (nat_to_dec n) \<noteq> CHR ''-'' \<and> hd (nat_to_dec n) \<noteq> CHR ''+''"
      by (simp add: digit_not_sign)
    then show ?thesis using digits
      by (simp add: decimal_literal_def unsigned_decimal_digits)
  qed
  have lit: "numeric_literal (nat_to_dec n) = Some (Fin (of_nat n))"
    using dec nat_to_dec_no_prefix [of n]
    by (auto simp: numeric_literal_def split: list.split)
  show ?thesis
  proof (cases "k < 0")
    case True
    then have s: "int_to_dec k = CHR ''-'' # nat_to_dec n" by (simp add: int_to_dec_def n_def)
    have "numeric_literal (CHR ''-'' # nat_to_dec n) = map_option js_neg (Some (Fin (of_nat n)))"
      using dec by (auto simp: numeric_literal_def decimal_literal_def unsigned_decimal_digits [OF _ digits]
                          split: list.split)
    moreover have "js_trim (CHR ''-'' # nat_to_dec n) = CHR ''-'' # nat_to_dec n"
      using digits by (intro js_trim_digits) auto
    ultimately show ?thesis using True s by (simp add: string_to_number_def n_def)
  next
    case False
    then have s: "int_to_dec k = nat_to_dec n" by (simp add: int_to_dec_def n_def)
    have "js_trim (nat_to_dec n) = nat_to_dec n"
      using digits by (intro js_trim_digits) auto
    with lit False s show ?thesis by (simp add: string_to_number_def n_def)
  qed
qed

end
