(* ===== verification/JsValue.thy ===== *)
theory JsValue
  imports JsNumber
begin

text \<open>
  The JavaScript values the handler reads and builds: the parsed request body
  \<open>req.body\<close>, the parsed provider reply \<open>data\<close>, the order \<open>pedido\<close> and the
  response bodies.  They are the values \<open>JSON.parse\<close> produces (objects, arrays,
  strings, numbers, booleans, null) and \<open>undefined\<close>, which a missing property
  reads as.  An object is the list of its own properties in property order.
  The operations of src/api/gerar-pix.js on them are modelled here with the
  TypeErrors they throw: property reads \<open>x.p\<close> and \<open>x[0]\<close> (GetValue after
  RequireObjectCoercible), truthiness (ToBoolean), \<open>x === "lit"\<close>, ToNumber (with
  ToPrimitive on objects and arrays) and the value-level effect of
  \<open>JSON.stringify\<close>.
\<close>

datatype jval =
    JUndef
  | JNull
  | JBool bool
  | JNum jsnum
  | JStr string
  | JArr "jval list"
  | JObj "(string \<times> jval) list"

datatype js_error =
    TypeError string
  | SyntaxError string
  | RangeError string
  | NetworkError string

fun error_message :: "js_error \<Rightarrow> string" where
  "error_message (TypeError m) = m"
| "error_message (SyntaxError m) = m"
| "error_message (RangeError m) = m"
| "error_message (NetworkError m) = m"

subsection \<open>Well-formed values\<close>

text \<open>
  An object built by an object literal or by \<open>JSON.parse\<close> has each key once.
  A JSON value in addition contains no \<open>undefined\<close> and only finite numbers.
\<close>

fun wf_jval :: "jval \<Rightarrow> bool" where
  "wf_jval (JArr xs) = (\<forall>x \<in> set xs. wf_jval x)"
| "wf_jval (JObj kvs) = (distinct (map fst kvs) \<and> (\<forall>kv \<in> set kvs. wf_jval (snd kv)))"
| "wf_jval _ = True"

fun json_value :: "jval \<Rightarrow> bool" where
  "json_value JUndef = False"
| "json_value (JNum n) = is_finite n"
| "json_value (JArr xs) = (\<forall>x \<in> set xs. json_value x)"
| "json_value (JObj kvs) = (distinct (map fst kvs) \<and> (\<forall>kv \<in> set kvs. json_value (snd kv)))"
| "json_value _ = True"

subsection \<open>ToBoolean\<close>

fun truthy :: "jval \<Rightarrow> bool" where
  "truthy JUndef = False"
| "truthy JNull = False"
| "truthy (JBool b) = b"
| "truthy (JNum n) = (n \<noteq> NaN \<and> n \<noteq> Fin 0)"
| "truthy (JStr s) = (s \<noteq> [])"
| "truthy (JArr _) = True"
| "truthy (JObj _) = True"

text \<open>Strict equality with a string literal: only the same string is equal.\<close>

definition strict_eq_str :: "jval \<Rightarrow> string \<Rightarrow> bool" where
  "strict_eq_str v s \<longleftrightarrow> v = JStr s"

subsection \<open>Property read\<close>

text \<open>
  A canonical array index: the decimal numeral of a natural number without
  leading zeros.
\<close>

definition array_index :: "string \<Rightarrow> nat option" where
  "array_index k =
     (if k \<noteq> [] \<and> (\<forall>c \<in> set k. is_dec_digit c) \<and> (hd k = CHR ''0'' \<longrightarrow> k = ''0'')
      then Some (dec_val k) else None)"

definition read_error :: "string \<Rightarrow> string \<Rightarrow> js_error" where
  "read_error what k =
     TypeError (''Cannot read properties of '' @ what @ '' (reading '' @ [CHR 0x27] @ k @ [CHR 0x27, CHR '')''])"

text \<open>
  \<open>get_prop v k\<close> is \<open>v[k]\<close> for a key that none of Object.prototype,
  Array.prototype, String.prototype, Number.prototype and Boolean.prototype
  defines, which holds for every key the handler reads (\<open>valor\<close>, \<open>nome\<close>,
  \<open>cpf\<close>, \<open>qr_codes\<close>, \<open>length\<close>, \<open>0\<close>, \<open>links\<close>, \<open>rel\<close>, \<open>href\<close>,
  \<open>id\<close>, \<open>text\<close>); \<open>length\<close> of arrays and strings is their own property.
\<close>

text \<open>The value of an own property of an object, \<open>undefined\<close> when it is missing.\<close>

definition get_field :: "(string \<times> jval) list \<Rightarrow> string \<Rightarrow> jval" where
  "get_field kvs k = (case map_of kvs k of Some v \<Rightarrow> v | None \<Rightarrow> JUndef)"

fun get_prop :: "jval \<Rightarrow> string \<Rightarrow> js_error + jval" where
  "get_prop JUndef k = Inl (read_error ''undefined'' k)"
| "get_prop JNull k = Inl (read_error ''null'' k)"
| "get_prop (JObj kvs) k = Inr (get_field kvs k)"
| "get_prop (JArr xs) k =
     Inr (if k = ''length'' then JNum (Fin (of_nat (length xs)))
          else case array_index k of
                 Some i \<Rightarrow> if i < length xs then xs ! i else JUndef
               | None \<Rightarrow> JUndef)"
| "get_prop (JStr s) k =
     Inr (if k = ''length'' then JNum (Fin (of_nat (length s)))
          else case array_index k of
                 Some i \<Rightarrow> if i < length s then JStr [s ! i] else JUndef
               | None \<Rightarrow> JUndef)"
| "get_prop _ k = Inr JUndef"

subsection \<open>ToNumber\<close>

text \<open>
  ToPrimitive on a parsed object calls \<open>valueOf\<close> (Object.prototype's, which
  returns the object) and \<open>toString\<close>.  A JSON object that has an own property
  \<open>toString\<close> shadows the method with a value that is not callable, so both
  attempts fail and ToPrimitive throws; otherwise the object converts to
  \<open>"[object Object]"\<close>, which is \<open>NaN\<close> as a number.  An array converts by
  \<open>join(",")\<close>, in which \<open>null\<close> and \<open>undefined\<close> elements are empty.
\<close>

definition to_prim_error :: js_error where
  "to_prim_error = TypeError ''Cannot convert object to primitive value''"

fun tostring_error :: "jval \<Rightarrow> js_error option" where
  "tostring_error (JObj kvs) = (if ''toString'' \<in> fst ` set kvs then Some to_prim_error else None)"
| "tostring_error (JArr xs) = first_some (map tostring_error xs)"
| "tostring_error _ = None"

definition obj_to_number :: "(string \<times> jval) list \<Rightarrow> js_error + jsnum" where
  "obj_to_number kvs = (if ''toString'' \<in> fst ` set kvs then Inl to_prim_error else Inr NaN)"

text \<open>
  A single-element array is the number its element's string denotes: the
  element's ToString followed by StringToNumber, which for a number is the
  number itself (Number::toString round-trips), for \<open>null\<close> the empty string,
  for a boolean \<open>"true"\<close> or \<open>"false"\<close>.  Two or more elements join with a
  comma, which no StringNumericLiteral contains.
\<close>

fun to_number :: "jval \<Rightarrow> js_error + jsnum" where
  "to_number JUndef = Inr NaN"
| "to_number JNull = Inr (Fin 0)"
| "to_number (JBool b) = Inr (Fin (if b then 1 else 0))"
| "to_number (JNum n) = Inr n"
| "to_number (JStr s) = Inr (string_to_number s)"
| "to_number (JObj kvs) = obj_to_number kvs"
| "to_number (JArr []) = Inr (Fin 0)"
| "to_number (JArr [x]) =
     (case x of JUndef \<Rightarrow> Inr (Fin 0) | JBool _ \<Rightarrow> Inr NaN | _ \<Rightarrow> to_number x)"
| "to_number (JArr (x # y # zs)) =
     (case first_some (map tostring_error (x # y # zs)) of Some e \<Rightarrow> Inl e | None \<Rightarrow> Inr NaN)"

subsection \<open>JSON.stringify, read back\<close>

text \<open>
  What \<open>JSON.stringify\<close> keeps of a value, as the receiver parses it back:
  non-finite numbers become \<open>null\<close>, properties whose value is \<open>undefined\<close>
  are left out, \<open>undefined\<close> array elements become \<open>null\<close>.  A top-level
  \<open>undefined\<close> produces no text at all and stays \<open>JUndef\<close>.
\<close>

definition undef_to_null :: "jval \<Rightarrow> jval" where
  "undef_to_null v = (if v = JUndef then JNull else v)"

fun json_serialize :: "jval \<Rightarrow> jval" where
  "json_serialize (JNum n) = (if is_finite n then JNum n else JNull)"
| "json_serialize (JArr xs) = JArr (map (\<lambda>x. undef_to_null (json_serialize x)) xs)"
| "json_serialize (JObj kvs) =
     JObj (filter (\<lambda>kv. snd kv \<noteq> JUndef) (map (\<lambda>kv. (fst kv, json_serialize (snd kv))) kvs))"
| "json_serialize v = v"

lemma json_value_not_undef: "json_value v \<Longrightarrow> v \<noteq> JUndef"
  by auto

lemma json_serialize_id: "json_value v \<Longrightarrow> json_serialize v = v"
proof (induction v rule: json_serialize.induct)
  case (2 xs)
  then have "\<forall>x \<in> set xs. undef_to_null (json_serialize x) = x"
    by (auto simp: undef_to_null_def)
  then show ?case by (simp add: map_idI)
next
  case (3 kvs)
  then have "\<forall>kv \<in> set kvs. (fst kv, json_serialize (snd kv)) = kv \<and> snd kv \<noteq> JUndef"
    by (fastforce simp: json_value_not_undef)
  then have "map (\<lambda>kv. (fst kv, json_serialize (snd kv))) kvs = kvs"
    and "\<forall>kv \<in> set kvs. snd kv \<noteq> JUndef"
    by (simp_all add: map_idI)
  then show ?case by simp
qed simp_all

lemma distinct_keys_serialize:
  "distinct (map fst kvs) \<Longrightarrow>
   distinct (map fst (filter P (map (\<lambda>kv. (fst kv, f (snd kv))) kvs)))"
proof -
  assume d: "distinct (map fst kvs)"
  have "map fst (map (\<lambda>kv. (fst kv, f (snd kv))) kvs) = map fst kvs" by simp
  with d have "distinct (map fst (map (\<lambda>kv. (fst kv, f (snd kv))) kvs))" by (simp add: comp_def)
  then show ?thesis by (rule distinct_map_filter)
qed

lemma json_serialize_undef_iff [simp]: "json_serialize v = JUndef \<longleftrightarrow> v = JUndef"
  by (cases v rule: json_serialize.cases) simp_all

text \<open>
  Whatever well-formed value the handler passes to \<open>JSON.stringify\<close>
  (\<open>res.json\<close> and the request body of \<open>fetch\<close>), what the receiver
  parses back is a JSON value: no \<open>undefined\<close>, no \<open>NaN\<close> or infinity,
  each key once.
\<close>

lemma json_serialize_is_json:
  "wf_jval v \<Longrightarrow> v \<noteq> JUndef \<Longrightarrow> json_value (json_serialize v)"
proof (induction v rule: json_serialize.induct)
  case (2 xs)
  then show ?case by (auto simp: undef_to_null_def)
next
  case (3 kvs)
  then show ?case by (auto simp: distinct_keys_serialize)
qed simp_all

lemma get_field_Some [simp]: "map_of kvs k = Some v \<Longrightarrow> get_field kvs k = v"
  by (simp add: get_field_def)

lemma array_index_zero [simp]: "array_index ''0'' = Some 0"
  by (simp add: array_index_def is_dec_digit_def digit_val_def)

lemma get_prop_first [simp]: "get_prop (JArr (x # xs)) ''0'' = Inr x"
  by simp

lemma get_prop_length [simp]: "get_prop (JArr xs) ''length'' = Inr (JNum (Fin (of_nat (length xs))))"
  by simp

end
