(* ===== verification/Binary64.thy ===== *)
theory Binary64
  imports JsValue "HOL-Library.Log_Nat"
begin

text \<open>
  IEEE-754 binary64 arithmetic of the amount, \<open>Math.round(valor * 100)\<close>
  (src/api/gerar-pix.js, lines 45 and 51), as the engine computes it; the
  order of theory Order carries this amount, \<open>amount_cents64\<close>.  The other
  numbers of the handler (the clock readings, a quantity of 1) are integers
  that binary64 holds exactly, and the development computes with them
  exactly.  \<open>number_value\<close> is "the Number value for x" of
  ECMA-262 6.1.6.1: round to nearest, ties to even, on the grid of the
  leading bit's exponent (at least that of the normal numbers, so subnormals
  are included), overflowing to an infinity from \<open>2\<^sup>1\<^sup>0\<^sup>2\<^sup>4 - 2\<^sup>9\<^sup>7\<^sup>0\<close> on, as
  the threshold of IEEE-754 says; the sign of zero is not represented.
  Number::multiply (\<open>js_mult64\<close>) rounds the exact product, StringToNumber
  (\<open>to_number64\<close>) rounds the exact value of the literal (RoundMVResult;
  engines round correctly), and \<open>Math.round\<close> is exact on a Number value.
  A request body's JSON number is the Number value of its literal, as
  \<open>JSON.parse\<close> makes it.  \<open>amount_cents\<close> is the same expression on exact
  rationals, the decimal reference the engine's result is compared with.

  The lemmas bound the rounding error by \<open>|x| / 2\<^sup>5\<^sup>3\<close> in the normal range
  (\<open>number_value_normal\<close>), show that every result of the rounding is a
  Number value, a fixed point of \<open>number_value\<close> (\<open>number_value_fixed\<close>),
  that rounding keeps the sign, stays finite below \<open>2\<^sup>1\<^sup>0\<^sup>2\<^sup>3\<close> and
  overflows from \<open>2\<^sup>1\<^sup>0\<^sup>2\<^sup>5\<close> on; whence every two-decimal amount comes out
  as its exact number of cents in spite of the rounding, as the decimal
  reference computes it, an amount with a half cent such as \<open>1.005\<close> is
  rounded down, and an amount of \<open>10\<^sup>3\<^sup>0\<^sup>7\<close> or more becomes an infinity.
\<close>

subsection \<open>The Number value for a rational (ECMA-262 6.1.6.1)\<close>

text \<open>
  \<open>flog2 q\<close> is \<open>\<lfloor>log\<^sub>2 q\<rfloor>\<close> for \<open>0 < q\<close>, from the bit lengths of the numerator and
  the denominator, which fix it up to one.
\<close>

definition flog2 :: "rat \<Rightarrow> int" where
  "flog2 q = (let (a, b) = quotient_of q; e = bitlen a - bitlen b in if power_int 2 e \<le> q then e else e - 1)"

text \<open>The integer nearest to \<open>m\<close>, the even one on a tie.\<close>

definition round_even :: "rat \<Rightarrow> int" where
  "round_even m =
     (let f = \<lfloor>m\<rfloor>; d = m - of_int f
      in if d < 1/2 then f else if 1/2 < d then f + 1 else if even f then f else f + 1)"

text \<open>The quantum of the rounding: the exponent of the leading bit, at least that of the normal numbers.\<close>

definition quantum :: "rat \<Rightarrow> int" where
  "quantum x = max (flog2 \<bar>x\<bar>) (-1022) - 52"

text \<open>
  Round to nearest, ties to even, on the quantum's grid; the result \<open>n \<cdot> 2\<^sup>u\<close>
  overflows when \<open>2\<^sup>1\<^sup>0\<^sup>2\<^sup>4 \<le> |n| \<cdot> 2\<^sup>u\<close>, i.e. when the bit length of \<open>|n|\<close>
  plus \<open>u\<close> reaches 1025.
\<close>

definition number_value :: "rat \<Rightarrow> jsnum" where
  "number_value x =
     (if x = 0 then Fin 0
      else let u = quantum x; n = round_even (x / power_int 2 u)
           in if 1025 \<le> bitlen \<bar>n\<bar> + u then (if 0 < x then PosInf else NegInf)
              else Fin (of_int n * power_int 2 u))"

text \<open>
  Number::multiply (ECMA-262 6.1.6.1.4): the exact product of finite
  operands, rounded; the infinite and \<open>NaN\<close> cases as \<open>js_mult\<close> has them.
\<close>

definition js_mult64 :: "jsnum \<Rightarrow> jsnum \<Rightarrow> jsnum" where
  "js_mult64 x y = (case js_mult x y of Fin q \<Rightarrow> number_value q | n \<Rightarrow> n)"

text \<open>ToNumber with the value of a numeric string rounded (RoundMVResult).\<close>

definition to_number64 :: "jval \<Rightarrow> js_error + jsnum" where
  "to_number64 v = (case to_number v of Inr (Fin q) \<Rightarrow> Inr (number_value q) | r \<Rightarrow> r)"

text \<open>
  \<open>Math.round(valor * 100)\<close>, lines 45 and 51, as the engine evaluates it:
  the amount of both places of the order built by \<open>Order.build_order\<close>.
\<close>

definition amount_cents64 :: "jval \<Rightarrow> js_error + jsnum" where
  "amount_cents64 valor = ebind (to_number64 valor) (\<lambda>n. Inr (math_round (js_mult64 n (Fin 100))))"

text \<open>
  The same expression on the exact values of the operands, without the two
  roundings: the decimal reference the engine's result is compared with.
\<close>

definition amount_cents :: "jval \<Rightarrow> js_error + jsnum" where
  "amount_cents valor = ebind (to_number valor) (\<lambda>n. Inr (math_round (js_mult n (Fin 100))))"


subsection \<open>Exponents and the rounding error\<close>

lemma power_int_2_pos [simp]: "0 < power_int (2::rat) e"
  by (simp add: power_int_def)

lemma power_int_2_nat: "0 \<le> k \<Longrightarrow> of_int (2 ^ nat k) = power_int (2::rat) k"
  by (simp add: power_int_def)

lemma power_int_2_add: "power_int (2::rat) (a + b) = power_int 2 a * power_int 2 b"
  by (simp add: power_int_add)

lemma bitlen_bounds_rat:
  assumes "0 < a"
  shows "power_int 2 (bitlen a - 1) \<le> (of_int a :: rat) \<and> of_int a < power_int (2::rat) (bitlen a)"
proof -
  have pos: "0 < bitlen a" using assms bitlen_nonneg [of a] bitlen_eq_zero_iff [of a] by auto
  have "(of_int (2 ^ nat (bitlen a - 1)) :: rat) \<le> of_int a" "(of_int a :: rat) < of_int (2 ^ nat (bitlen a))"
    using bitlen_bounds [OF assms] by (simp_all only: of_int_le_iff of_int_less_iff)
  then show ?thesis using pos by (simp only: power_int_2_nat)
qed

lemma flog2_bounds:
  assumes "0 < q"
  shows "power_int 2 (flog2 q) \<le> q \<and> q < power_int 2 (flog2 q + 1)"
proof -
  obtain a b where ab: "quotient_of q = (a, b)" by (cases "quotient_of q")
  then have q: "q = of_int a / of_int b" and b: "0 < b" by (auto simp: quotient_of_div quotient_of_denom_pos)
  with assms have a: "0 < a" by (auto simp: zero_less_divide_iff)
  define la where "la = bitlen a"
  define lb where "lb = bitlen b"
  have la: "power_int 2 (la - 1) \<le> (of_int a :: rat)" "(of_int a :: rat) < power_int 2 la"
    using bitlen_bounds_rat [OF a] by (simp_all add: la_def)
  have lb: "power_int 2 (lb - 1) \<le> (of_int b :: rat)" "(of_int b :: rat) < power_int 2 lb"
    using bitlen_bounds_rat [OF b] by (simp_all add: lb_def)
  define e where "e = la - lb"
  have bq: "of_int a = q * of_int b" using q b by simp
  have lo: "power_int 2 (e - 1) < q"
  proof -
    have "power_int 2 (e - 1) * of_int b < power_int 2 (e - 1) * power_int (2::rat) lb"
      using lb(2) by simp
    also have "\<dots> = power_int 2 (la - 1)" by (simp add: e_def power_int_2_add [symmetric])
    also have "\<dots> \<le> q * of_int b" using la(1) bq by simp
    finally show ?thesis using b by simp
  qed
  have hi: "q < power_int 2 (e + 1)"
  proof -
    have "q * of_int b < power_int 2 la" using la(2) bq by simp
    also have "\<dots> = power_int 2 (e + 1) * power_int (2::rat) (lb - 1)" by (simp add: e_def power_int_2_add [symmetric])
    also have "\<dots> \<le> power_int 2 (e + 1) * of_int b" using lb(1) by simp
    finally show ?thesis using b by simp
  qed
  have "flog2 q = (if power_int 2 e \<le> q then e else e - 1)"
    by (simp add: flog2_def ab e_def la_def lb_def)
  then show ?thesis using lo hi by auto
qed


lemma round_even_err: "\<bar>of_int (round_even m) - m\<bar> \<le> 1/2"
proof -
  have "of_int \<lfloor>m\<rfloor> \<le> m" "m < of_int \<lfloor>m\<rfloor> + 1" by linarith+
  then show ?thesis by (auto simp: round_even_def Let_def abs_le_iff)
qed

lemma round_even_of_int [simp]: "round_even (of_int m) = m"
  by (simp add: round_even_def)

lemma rounded_err:
  "\<bar>of_int (round_even (x / power_int 2 u)) * power_int 2 u - x\<bar> \<le> power_int (2::rat) u / 2"
proof -
  let ?P = "power_int (2::rat) u"
  have "\<bar>of_int (round_even (x / ?P)) - x / ?P\<bar> * ?P \<le> 1/2 * ?P"
    using round_even_err [of "x / ?P"] by (intro mult_right_mono) simp_all
  moreover have "\<bar>of_int (round_even (x / ?P)) - x / ?P\<bar> * ?P = \<bar>(of_int (round_even (x / ?P)) - x / ?P) * ?P\<bar>"
    by (simp add: abs_mult)
  moreover have "(of_int (round_even (x / ?P)) - x / ?P) * ?P = of_int (round_even (x / ?P)) * ?P - x"
    by (simp add: field_simps)
  ultimately show ?thesis by simp
qed

lemma quantum_normal:
  assumes "inverse (2 ^ 1022) \<le> \<bar>x\<bar>"
  shows "power_int 2 (quantum x) * 2 ^ 52 \<le> \<bar>x\<bar>"
proof -
  have x: "0 < \<bar>x\<bar>" using assms by (rule less_le_trans [rotated]) simp
  note fb = flog2_bounds [OF x]
  have "power_int 2 (-1022) < power_int (2::rat) (flog2 \<bar>x\<bar> + 1)"
    using assms fb by (simp add: power_int_minus)
  then have "-1022 < flog2 \<bar>x\<bar> + 1"
    using power_int_increasing [of "flog2 \<bar>x\<bar> + 1" "-1022" "2::rat"] by linarith
  then have "quantum x + 52 = flog2 \<bar>x\<bar>" by (simp add: quantum_def)
  then have "power_int 2 (quantum x) * 2 ^ 52 = power_int (2::rat) (flog2 \<bar>x\<bar>)"
    by (metis power_int_2_add power_int_numeral)
  then show ?thesis using fb by simp
qed

lemma below_quantum: "x \<noteq> 0 \<Longrightarrow> \<bar>x\<bar> < power_int 2 (quantum x + 53)"
proof -
  assume "x \<noteq> 0"
  then have "\<bar>x\<bar> < power_int 2 (flog2 \<bar>x\<bar> + 1)" using flog2_bounds [of "\<bar>x\<bar>"] by simp
  also have "\<dots> \<le> power_int 2 (quantum x + 53)" by (intro power_int_increasing) (simp_all add: quantum_def)
  finally show ?thesis .
qed

lemma no_overflow:
  assumes "\<bar>of_int n * power_int 2 u\<bar> < (2::rat) ^ 1024" and "n \<noteq> 0"
  shows "\<not> 1025 \<le> bitlen \<bar>n\<bar> + u"
proof
  assume big: "1025 \<le> bitlen \<bar>n\<bar> + u"
  have "0 < \<bar>n\<bar>" using assms(2) by simp
  then have "power_int 2 (bitlen \<bar>n\<bar> - 1) \<le> (of_int \<bar>n\<bar> :: rat)" using bitlen_bounds_rat by blast
  then have "power_int 2 (bitlen \<bar>n\<bar> - 1) * power_int 2 u \<le> \<bar>of_int n * power_int (2::rat) u\<bar>"
    by (simp add: abs_mult)
  moreover have "power_int (2::rat) 1024 \<le> power_int 2 (bitlen \<bar>n\<bar> - 1 + u)"
    using big by (intro power_int_increasing) simp_all
  moreover have "power_int (2::rat) (bitlen \<bar>n\<bar> - 1 + u) = power_int 2 (bitlen \<bar>n\<bar> - 1) * power_int 2 u"
    by (rule power_int_2_add)
  ultimately show False using assms by simp
qed

lemma fits_1024:
  assumes "n \<noteq> 0" and "\<not> 1025 \<le> bitlen \<bar>n\<bar> + u"
  shows "\<bar>of_int n * power_int 2 u\<bar> < (2::rat) ^ 1024"
proof -
  have "0 < \<bar>n\<bar>" using assms(1) by simp
  then have "(of_int \<bar>n\<bar> :: rat) < power_int 2 (bitlen \<bar>n\<bar>)" using bitlen_bounds_rat by blast
  then have "\<bar>of_int n * power_int 2 u\<bar> < power_int 2 (bitlen \<bar>n\<bar>) * power_int (2::rat) u"
    by (simp add: abs_mult)
  also have "\<dots> = power_int 2 (bitlen \<bar>n\<bar> + u)" by (rule power_int_2_add [symmetric])
  also have "\<dots> \<le> power_int 2 1024" using assms(2) by (intro power_int_increasing) simp_all
  finally show ?thesis by simp
qed

lemma number_value_zero [simp]: "number_value 0 = Fin 0"
  by (simp add: number_value_def)

lemma number_value_Fin_cases:
  assumes "number_value x = Fin r" and "x \<noteq> 0"
  shows "r = of_int (round_even (x / power_int 2 (quantum x))) * power_int 2 (quantum x)"
  using assms by (simp add: number_value_def Let_def split: if_splits)

lemma number_value_normal:
  assumes lo: "inverse (2 ^ 1022) \<le> \<bar>x\<bar>" and hi: "\<bar>x\<bar> < 2 ^ 1023"
  shows "\<exists>r. number_value x = Fin r \<and> \<bar>r - x\<bar> \<le> \<bar>x\<bar> / 2 ^ 53"
proof -
  have x: "x \<noteq> 0" using lo by auto
  define r where "r = of_int (round_even (x / power_int 2 (quantum x))) * power_int (2::rat) (quantum x)"
  have "\<bar>r - x\<bar> \<le> power_int 2 (quantum x) / 2" unfolding r_def by (rule rounded_err)
  also have "\<dots> \<le> \<bar>x\<bar> / 2 ^ 53" using quantum_normal [OF lo] by simp
  finally have err: "\<bar>r - x\<bar> \<le> \<bar>x\<bar> / 2 ^ 53" .
  have "\<bar>r\<bar> \<le> \<bar>x\<bar> + \<bar>r - x\<bar>" using abs_triangle_ineq [of x "r - x"] by simp
  moreover have "\<bar>x\<bar> / 2 ^ 53 \<le> \<bar>x\<bar>" by simp
  ultimately have "\<bar>r\<bar> < 2 * 2 ^ 1023" using hi err by linarith
  then have "\<bar>r\<bar> < 2 ^ 1024" by simp
  moreover have "round_even (x / power_int 2 (quantum x)) \<noteq> 0"
  proof
    assume "round_even (x / power_int 2 (quantum x)) = 0"
    then have "r = 0" by (simp add: r_def)
    with err x show False by simp
  qed
  ultimately have "\<not> 1025 \<le> bitlen \<bar>round_even (x / power_int 2 (quantum x))\<bar> + quantum x"
    unfolding r_def by (rule no_overflow)
  then have "number_value x = Fin r" using x by (simp add: number_value_def r_def Let_def)
  with err show ?thesis by blast
qed


lemma number_value_err:
  assumes r: "number_value x = Fin r" and lo: "inverse (2 ^ 1022) \<le> \<bar>x\<bar>"
  shows "\<bar>r - x\<bar> \<le> \<bar>x\<bar> / 2 ^ 53"
proof -
  have x: "x \<noteq> 0" using lo by auto
  have "\<bar>r - x\<bar> \<le> power_int 2 (quantum x) / 2"
    unfolding number_value_Fin_cases [OF r x] by (rule rounded_err)
  also have "\<dots> \<le> \<bar>x\<bar> / 2 ^ 53" using quantum_normal [OF lo] by simp
  finally show ?thesis .
qed

lemma number_value_subnormal:
  assumes r: "number_value x = Fin r" and sm: "\<bar>x\<bar> < inverse (2 ^ 1022)"
  shows "\<bar>r\<bar> \<le> inverse (2 ^ 1021)"
proof (cases "x = 0")
  case True
  then show ?thesis using r by simp
next
  case x: False
  have fb: "power_int 2 (flog2 \<bar>x\<bar>) \<le> \<bar>x\<bar>" using flog2_bounds [of "\<bar>x\<bar>"] x by simp
  have "flog2 \<bar>x\<bar> < -1022"
  proof (rule ccontr)
    assume "\<not> flog2 \<bar>x\<bar> < -1022"
    then have "power_int (2::rat) (-1022) \<le> power_int 2 (flog2 \<bar>x\<bar>)" by (intro power_int_increasing) simp_all
    with fb sm show False by (simp add: power_int_minus)
  qed
  then have q: "quantum x = -1074" by (simp add: quantum_def)
  have "\<bar>r - x\<bar> \<le> power_int 2 (quantum x) / 2"
    unfolding number_value_Fin_cases [OF r x] by (rule rounded_err)
  then have "\<bar>r - x\<bar> \<le> inverse (2 ^ 1075)" by (simp add: q power_int_minus)
  moreover have "\<bar>r\<bar> \<le> \<bar>x\<bar> + \<bar>r - x\<bar>" using abs_triangle_ineq [of x "r - x"] by simp
  moreover have "inverse (2 ^ 1022) + inverse (2 ^ 1075) \<le> (inverse (2 ^ 1021) :: rat)" by simp
  ultimately show ?thesis using sm by linarith
qed

subsection \<open>Number values are fixed points of the rounding\<close>

text \<open>
  Every result of \<open>number_value\<close> is a Number value: rounding it again
  changes nothing.  A rounded mantissa has at most 54 bits, and when it
  reaches \<open>2\<^sup>5\<^sup>3\<close> the grid of the result is one step coarser.
\<close>

lemma rounded_mantissa_le:
  assumes x: "x \<noteq> 0"
  shows "\<bar>round_even (x / power_int 2 (quantum x))\<bar> \<le> 2 ^ 53"
proof -
  let ?m = "x / power_int 2 (quantum x)"
  have "\<bar>x\<bar> < power_int 2 (quantum x) * 2 ^ 53" using below_quantum [OF x] by (simp add: power_int_2_add)
  then have m: "\<bar>?m\<bar> < 2 ^ 53" by (simp add: abs_divide divide_less_eq mult.commute)
  have "\<bar>of_int (round_even ?m)\<bar> \<le> \<bar>?m\<bar> + \<bar>of_int (round_even ?m) - ?m\<bar>"
    using abs_triangle_ineq [of ?m "of_int (round_even ?m) - ?m"] by simp
  then have "(of_int \<bar>round_even ?m\<bar> :: rat) < of_int (2 ^ 53 + 1)" using m round_even_err [of ?m] by simp
  then show ?thesis by (simp only: of_int_less_iff)
qed

lemma grid_shift:
  assumes "v \<le> u"
  shows "of_int n * power_int 2 u = of_int (n * 2 ^ nat (u - v)) * power_int (2::rat) v"
proof -
  have "power_int (2::rat) u = power_int 2 (u - v) * power_int 2 v" by (simp add: power_int_2_add [symmetric])
  moreover have "power_int (2::rat) (u - v) = of_int (2 ^ nat (u - v))" using assms by (simp add: power_int_def)
  ultimately show ?thesis by simp
qed

lemma quantum_rounded:
  assumes r: "r = of_int n * power_int 2 u" and n: "n \<noteq> 0" "\<bar>n\<bar> \<le> 2 ^ 53" and u: "-1074 \<le> u"
  shows "quantum r \<le> u + 1 \<and> (quantum r = u + 1 \<longrightarrow> \<bar>n\<bar> = 2 ^ 53)"
proof -
  have r0: "0 < \<bar>r\<bar>" using r n by simp
  have "(of_int \<bar>n\<bar> :: rat) \<le> of_int (2 ^ 53)" using n(2) by (simp only: of_int_le_iff)
  then have "\<bar>r\<bar> \<le> 2 ^ 53 * power_int 2 u" using r by (simp add: abs_mult)
  also have "\<dots> < power_int 2 (u + 54)" by (simp add: power_int_2_add)
  finally have "\<bar>r\<bar> < power_int 2 (u + 54)" .
  then have fl: "flog2 \<bar>r\<bar> < u + 54"
    using flog2_bounds [OF r0] power_int_increasing [of "u + 54" "flog2 \<bar>r\<bar>" "2::rat"] by linarith
  show ?thesis
  proof (intro conjI impI)
    show "quantum r \<le> u + 1" using fl u by (simp add: quantum_def)
  next
    assume "quantum r = u + 1"
    then have "flog2 \<bar>r\<bar> = u + 53" using fl u by (simp add: quantum_def)
    then have "power_int 2 53 * power_int 2 u \<le> \<bar>r\<bar>" using flog2_bounds [OF r0] by (simp add: power_int_2_add add.commute)
    then have "(of_int (2 ^ 53) :: rat) \<le> of_int \<bar>n\<bar>" using r by (simp add: abs_mult)
    then have "2 ^ 53 \<le> \<bar>n\<bar>" by (simp only: of_int_le_iff)
    with n(2) show "\<bar>n\<bar> = 2 ^ 53" by simp
  qed
qed

lemma number_value_grid:
  assumes u: "quantum x = u" and x: "x = of_int m * power_int 2 u" and b: "\<bar>x\<bar> < 2 ^ 1024"
  shows "number_value x = Fin x"
proof (cases "m = 0")
  case True
  then show ?thesis using x by simp
next
  case False
  have nz: "x \<noteq> 0" using x False by simp
  have d: "x / power_int 2 (quantum x) = of_int m" using x u by simp
  have "\<not> 1025 \<le> bitlen \<bar>m\<bar> + quantum x" using no_overflow [of m u] b x u False by simp
  then show ?thesis using nz d x u by (simp add: number_value_def Let_def)
qed

lemma number_value_fixed:
  assumes r: "number_value x = Fin r"
  shows "number_value r = Fin r"
proof (cases "x = 0")
  case True
  then show ?thesis using r by simp
next
  case x: False
  define u where "u = quantum x"
  define n where "n = round_even (x / power_int 2 u)"
  have rn: "r = of_int n * power_int 2 u" using number_value_Fin_cases [OF r x] by (simp add: n_def u_def)
  have nov: "\<not> 1025 \<le> bitlen \<bar>n\<bar> + u" using r x by (simp add: number_value_def Let_def n_def u_def split: if_splits)
  show ?thesis
  proof (cases "n = 0")
    case True
    then show ?thesis using rn by simp
  next
    case n0: False
    have big: "\<bar>r\<bar> < 2 ^ 1024" using fits_1024 [OF n0 nov] rn by simp
    have nb: "\<bar>n\<bar> \<le> 2 ^ 53" using rounded_mantissa_le [OF x] by (simp add: n_def u_def)
    have uq: "-1074 \<le> u" by (simp add: u_def quantum_def)
    note qr = quantum_rounded [OF rn n0 nb uq]
    show ?thesis
    proof (cases "quantum r \<le> u")
      case True
      have "r = of_int (n * 2 ^ nat (u - quantum r)) * power_int 2 (quantum r)"
        using rn grid_shift [OF True, of n] by (rule trans)
      then show ?thesis using big by (intro number_value_grid [OF refl])
    next
      case False
      then have v: "quantum r = u + 1" using qr by simp
      then have "\<bar>n\<bar> = 2 ^ 53" using qr by simp
      then have "n = 2 ^ 53 \<or> n = - (2 ^ 53)" by arith
      then have n2: "n = 2 * (n div 2)" by auto
      have "r = of_int (2 * (n div 2)) * power_int 2 u" using rn n2 by metis
      also have "\<dots> = of_int (n div 2) * power_int 2 (quantum r)" by (simp add: v power_int_2_add)
      finally show ?thesis using big by (intro number_value_grid [OF refl])
    qed
  qed
qed

subsection \<open>Sign, finiteness and overflow\<close>

lemma round_even_nonpos: "m \<le> 0 \<Longrightarrow> round_even m \<le> 0"
proof -
  assume "m \<le> 0"
  then have "(of_int (round_even m) :: rat) \<le> 1/2" using round_even_err [of m] by linarith
  then show ?thesis by linarith
qed

lemma number_value_nonpos:
  assumes "number_value x = Fin r" and "x \<le> 0"
  shows "r \<le> 0"
proof (cases "x = 0")
  case True
  then show ?thesis using assms by simp
next
  case False
  have "round_even (x / power_int 2 (quantum x)) \<le> 0"
    using assms(2) by (intro round_even_nonpos) (simp add: divide_nonpos_pos)
  then show ?thesis unfolding number_value_Fin_cases [OF assms(1) False]
    by (simp add: mult_nonpos_nonneg)
qed

lemma quantum_le:
  assumes "\<bar>x\<bar> < 2 ^ 1023" and "x \<noteq> 0"
  shows "quantum x \<le> 970"
proof -
  have "power_int 2 (flog2 \<bar>x\<bar>) < power_int (2::rat) 1023"
    using flog2_bounds [of "\<bar>x\<bar>"] assms by simp
  then have "flog2 \<bar>x\<bar> < 1023" using power_int_increasing [of 1023 "flog2 \<bar>x\<bar>" "2::rat"] by linarith
  then show ?thesis by (simp add: quantum_def)
qed

lemma number_value_finite:
  assumes "\<bar>x\<bar> < 2 ^ 1023"
  shows "\<exists>r. number_value x = Fin r \<and> \<bar>r - x\<bar> \<le> 2 ^ 969"
proof (cases "x = 0")
  case True
  then show ?thesis by simp
next
  case x: False
  define u where "u = quantum x"
  define n where "n = round_even (x / power_int 2 u)"
  have u: "u \<le> 970" using quantum_le [OF assms x] by (simp add: u_def)
  have "\<bar>n\<bar> \<le> 2 ^ 53" using rounded_mantissa_le [OF x] by (simp add: n_def u_def)
  then have "\<bar>n\<bar> < 2 ^ nat 54" by simp
  then have "bitlen \<bar>n\<bar> \<le> 54" using bitlen_le_iff_power [of "\<bar>n\<bar>" 54] by simp
  with u have nov: "\<not> 1025 \<le> bitlen \<bar>n\<bar> + u" by simp
  have "\<bar>of_int n * power_int 2 u - x\<bar> \<le> power_int (2::rat) u / 2" unfolding n_def by (rule rounded_err)
  also have "\<dots> \<le> power_int 2 970 / 2" using power_int_increasing [OF u, of "2::rat"] by simp
  finally have "\<bar>of_int n * power_int 2 u - x\<bar> \<le> 2 ^ 969" by simp
  moreover have "number_value x = Fin (of_int n * power_int 2 u)"
    using x nov by (simp add: number_value_def Let_def n_def u_def)
  ultimately show ?thesis by blast
qed

lemma number_value_overflow:
  assumes "2 ^ 1025 \<le> \<bar>x\<bar>"
  shows "number_value x = (if 0 < x then PosInf else NegInf)"
proof -
  have x: "x \<noteq> 0" using assms by auto
  have nf: "number_value x \<noteq> Fin r" for r
  proof
    assume r: "number_value x = Fin r"
    define u where "u = quantum x"
    define n where "n = round_even (x / power_int 2 u)"
    have rn: "r = of_int n * power_int 2 u" using number_value_Fin_cases [OF r x] by (simp add: n_def u_def)
    have nov: "\<not> 1025 \<le> bitlen \<bar>n\<bar> + u" using r x by (simp add: number_value_def Let_def n_def u_def split: if_splits)
    have lo: "inverse (2 ^ 1022) \<le> \<bar>x\<bar>" using assms by (rule order_trans [rotated]) simp
    have e: "\<bar>r - x\<bar> \<le> \<bar>x\<bar> / 2 ^ 53" using number_value_err [OF r lo] .
    have "\<bar>x\<bar> / 2 ^ 53 \<le> \<bar>x\<bar> / 2" by (simp add: divide_left_mono)
    then have "\<bar>r - x\<bar> \<le> \<bar>x\<bar> / 2" using e by linarith
    moreover have "\<bar>x\<bar> \<le> \<bar>r\<bar> + \<bar>r - x\<bar>" using abs_triangle_ineq [of r "x - r"] by (simp add: abs_minus_commute)
    ultimately have "\<bar>x\<bar> / 2 \<le> \<bar>r\<bar>" by linarith
    then have big: "2 ^ 1024 \<le> \<bar>r\<bar>" using assms by simp
    show False
    proof (cases "n = 0")
      case True
      then show False using big rn by simp
    next
      case False
      show False using fits_1024 [OF False nov] rn big by simp
    qed
  qed
  let ?n = "round_even (x / power_int 2 (quantum x))"
  show ?thesis
  proof (cases "1025 \<le> bitlen \<bar>?n\<bar> + quantum x")
    case True
    then show ?thesis using x by (simp add: number_value_def Let_def)
  next
    case False
    then have "number_value x = Fin (of_int ?n * power_int 2 (quantum x))" using x by (simp add: number_value_def Let_def)
    with nf show ?thesis by blast
  qed
qed

lemma number_value_cases: "(\<exists>r. number_value x = Fin r) \<or> number_value x = (if 0 < x then PosInf else NegInf)"
  by (auto simp: number_value_def Let_def)

lemma to_number64_number_value: "to_number64 (JNum (number_value q)) = Inr (number_value q)"
  using number_value_cases [of q] by (auto simp: to_number64_def number_value_fixed)

subsection \<open>Multiplication\<close>

lemma js_mult64_Fin: "js_mult64 (Fin p) (Fin q) = number_value (p * q)"
  by (simp add: js_mult64_def)

lemma math_round_near:
  assumes "\<bar>y - of_int d\<bar> < 1/2"
  shows "math_round (Fin y) = Fin (of_int d)"
proof -
  have "of_int d \<le> y + 1/2" "y + 1/2 < of_int d + 1" using assms unfolding abs_less_iff by linarith+
  then show ?thesis by (simp add: floor_eq_iff)
qed

text \<open>
  \<open>valor * 100\<close> as the engine computes it: the product of two finite
  Numbers in the normal range is finite and within a relative error of
  \<open>2\<^sup>-\<^sup>5\<^sup>3\<close> of the exact product.
\<close>

lemma js_mult64_rel_error:
  assumes "inverse (2 ^ 1022) \<le> \<bar>p * q\<bar>" and "\<bar>p * q\<bar> < 2 ^ 1023"
  shows "\<exists>r. js_mult64 (Fin p) (Fin q) = Fin r \<and> \<bar>r - p * q\<bar> \<le> \<bar>p * q\<bar> / 2 ^ 53"
  using number_value_normal [OF assms] by (simp add: js_mult64_Fin)

subsection \<open>The amount\<close>

lemma abs_scale_100: "\<bar>y * 100 - z\<bar> = 100 * \<bar>y - z / (100::rat)\<bar>"
proof -
  have "y * 100 - z = 100 * (y - z / 100)" by (simp add: algebra_simps)
  then show ?thesis by (simp only: abs_mult abs_numeral)
qed

lemma to_number64_Fin:
  assumes "to_number64 v = Inr (Fin x)"
  obtains q where "to_number v = Inr (Fin q)" and "number_value q = Fin x"
  using assms by (auto simp: to_number64_def split: sum.splits jsnum.splits)

lemma cents_range:
  assumes "\<bar>d\<bar> \<le> 2 ^ 50" "d \<noteq> 0"
  shows "1 \<le> \<bar>(of_int d :: rat)\<bar> \<and> \<bar>(of_int d :: rat)\<bar> \<le> 2 ^ 50"
proof -
  have "1 \<le> \<bar>d\<bar>" using assms(2) by linarith
  then have "(of_int 1 :: rat) \<le> of_int \<bar>d\<bar>" by (simp only: of_int_le_iff)
  moreover have "(of_int \<bar>d\<bar> :: rat) \<le> of_int (2 ^ 50)" using assms(1) by (simp only: of_int_le_iff)
  ultimately show ?thesis by simp
qed

lemma cents_round_trip:
  assumes d: "\<bar>d\<bar> \<le> 2 ^ 50" "d \<noteq> 0" and x: "number_value (of_int d / 100) = Fin x"
  shows "math_round (js_mult64 (Fin x) (Fin 100)) = Fin (of_int d)"
proof -
  let ?q = "of_int d / (100::rat)"
  have dq: "1 \<le> \<bar>(of_int d :: rat)\<bar>" "\<bar>(of_int d :: rat)\<bar> \<le> 2 ^ 50" using cents_range [OF d] by simp_all
  have "inverse (2 ^ 1022) \<le> \<bar>?q\<bar>" "\<bar>?q\<bar> < 2 ^ 1023" using dq by simp_all
  then obtain x' where "number_value ?q = Fin x'" and ex: "\<bar>x' - ?q\<bar> \<le> \<bar>?q\<bar> / 2 ^ 53"
    using number_value_normal by blast
  with x have ex: "\<bar>x - ?q\<bar> \<le> \<bar>?q\<bar> / 2 ^ 53" by simp
  let ?p = "x * 100"
  have ep: "\<bar>?p - of_int d\<bar> \<le> \<bar>of_int d\<bar> / 2 ^ 53"
    using ex abs_scale_100 [of x "of_int d"] by (simp add: abs_divide)
  have "\<bar>?p\<bar> \<le> \<bar>of_int d\<bar> + \<bar>?p - of_int d\<bar>" using abs_triangle_ineq [of "of_int d" "?p - of_int d"] by simp
  moreover have "\<bar>of_int d\<bar> \<le> \<bar>?p\<bar> + \<bar>?p - of_int d\<bar>" using abs_triangle_ineq [of "?p" "of_int d - ?p"] by (simp add: abs_minus_commute)
  moreover have "\<bar>of_int d\<bar> / 2 ^ 53 \<le> (2 ^ 50 / 2 ^ 53 :: rat)" using dq(2) by (rule divide_right_mono) simp
  moreover have "(2 ^ 50 / 2 ^ 53 :: rat) = 1/8" "(2::rat) ^ 51 = 2 * 2 ^ 50" by simp_all
  ultimately have pb: "1/2 \<le> \<bar>?p\<bar>" "\<bar>?p\<bar> \<le> 2 ^ 51" using ep dq by linarith+
  moreover have "inverse (2 ^ 1022) \<le> (1/2 :: rat)" "(2::rat) ^ 51 < 2 ^ 1023" by simp_all
  ultimately have "inverse (2 ^ 1022) \<le> \<bar>?p\<bar>" "\<bar>?p\<bar> < 2 ^ 1023" by linarith+
  then obtain y where y: "number_value ?p = Fin y" and ey: "\<bar>y - ?p\<bar> \<le> \<bar>?p\<bar> / 2 ^ 53"
    using number_value_normal by blast
  have "\<bar>y - of_int d\<bar> \<le> \<bar>y - ?p\<bar> + \<bar>?p - of_int d\<bar>" using abs_triangle_ineq [of "y - ?p" "?p - of_int d"] by simp
  also have "\<dots> \<le> 2 ^ 51 / 2 ^ 53 + 2 ^ 50 / 2 ^ 53" using ey ep pb dq by (intro add_mono) (simp_all add: divide_right_mono)
  finally have "\<bar>y - of_int d\<bar> < 1/2" by simp
  then have "math_round (Fin y) = Fin (of_int d)" by (rule math_round_near)
  then show ?thesis using y by (simp add: js_mult64_Fin)
qed


lemma amount_zero_range:
  assumes "number_value q = Fin 0"
  shows "\<bar>q\<bar> * 100 < 1/2"
proof (cases "\<bar>q\<bar> < inverse (2 ^ 1022)")
  case True
  moreover have "inverse (2 ^ 1022) * 100 < (1/2 :: rat)" by simp
  ultimately show ?thesis by linarith
next
  case False
  then have "\<bar>0 - q\<bar> \<le> \<bar>q\<bar> / 2 ^ 53" using number_value_err [OF assms] by simp
  then have "q = 0" by (simp add: divide_le_eq)
  then show ?thesis by simp
qed

lemma amount_cents_agrees:
  assumes v: "to_number64 valor = Inr (number_value (of_int d / 100))"
    and d: "\<bar>d\<bar> \<le> 2 ^ 49" "d \<noteq> 0"
  shows "amount_cents valor = Inr (Fin (of_int d))"
proof -
  let ?c = "of_int d / (100::rat)"
  have d50: "\<bar>d\<bar> \<le> 2 ^ 50" using d(1) by simp
  have "(of_int \<bar>d\<bar> :: rat) \<le> of_int (2 ^ 49)" using d(1) by (simp only: of_int_le_iff)
  then have dq: "1 \<le> \<bar>(of_int d :: rat)\<bar>" "\<bar>(of_int d :: rat)\<bar> \<le> 2 ^ 49"
    using cents_range [OF d50 d(2)] by simp_all
  have "inverse (2 ^ 1022) \<le> \<bar>?c\<bar>" "\<bar>?c\<bar> < 2 ^ 1023" using dq by simp_all
  then obtain x where x: "number_value ?c = Fin x" and ex: "\<bar>x - ?c\<bar> \<le> \<bar>?c\<bar> / 2 ^ 53"
    using number_value_normal by blast
  from v x obtain q where tq: "to_number valor = Inr (Fin q)" and nq: "number_value q = Fin x"
    by (auto elim: to_number64_Fin)
  have cx: "\<bar>x\<bar> \<le> \<bar>?c\<bar> + \<bar>x - ?c\<bar>" "\<bar>?c\<bar> \<le> \<bar>x\<bar> + \<bar>x - ?c\<bar>"
    using abs_triangle_ineq [of ?c "x - ?c"] abs_triangle_ineq [of x "?c - x"] by (simp_all add: abs_minus_commute)
  have c53: "\<bar>?c\<bar> / 2 ^ 53 \<le> \<bar>?c\<bar> / 2" by (simp add: divide_left_mono)
  have cb: "\<bar>?c\<bar> = \<bar>of_int d\<bar> / 100" by (simp add: abs_divide)
  have xb: "1 / 200 \<le> \<bar>x\<bar>" "\<bar>x\<bar> \<le> \<bar>of_int d\<bar> / 50" using cx ex c53 cb dq by linarith+
  have "\<not> \<bar>q\<bar> < inverse (2 ^ 1022)"
  proof
    assume "\<bar>q\<bar> < inverse (2 ^ 1022)"
    then have "\<bar>x\<bar> \<le> inverse (2 ^ 1021)" by (rule number_value_subnormal [OF nq])
    moreover have "inverse (2 ^ 1021) < (1 / 200 :: rat)" by simp
    ultimately show False using xb by linarith
  qed
  then have eq: "\<bar>x - q\<bar> \<le> \<bar>q\<bar> / 2 ^ 53" using number_value_err [OF nq] by simp
  have "\<bar>q\<bar> \<le> \<bar>x\<bar> + \<bar>x - q\<bar>" using abs_triangle_ineq [of x "q - x"] by (simp add: abs_minus_commute)
  moreover have "\<bar>q\<bar> / 2 ^ 53 \<le> \<bar>q\<bar> / 2" by (simp add: divide_left_mono)
  ultimately have qb: "\<bar>q\<bar> \<le> 2 * \<bar>x\<bar>" using eq by linarith
  have e1: "\<bar>q * 100 - x * 100\<bar> = 100 * \<bar>x - q\<bar>" using abs_scale_100 [of q "x * 100"] by (simp add: abs_minus_commute)
  have e2: "\<bar>x * 100 - of_int d\<bar> = 100 * \<bar>x - ?c\<bar>" by (rule abs_scale_100)
  have "\<bar>q * 100 - of_int d\<bar> \<le> \<bar>q * 100 - x * 100\<bar> + \<bar>x * 100 - of_int d\<bar>"
    using abs_triangle_ineq [of "q * 100 - x * 100" "x * 100 - of_int d"] by simp
  also have "\<dots> \<le> 100 * (\<bar>q\<bar> / 2 ^ 53) + 100 * (\<bar>?c\<bar> / 2 ^ 53)" using e1 e2 eq ex by simp
  also have "\<dots> \<le> 5 * \<bar>of_int d\<bar> / 2 ^ 53" using qb xb cb by (simp add: field_simps)
  also have "\<dots> \<le> 5 * 2 ^ 49 / 2 ^ 53" using dq by (simp add: divide_right_mono)
  finally have "\<bar>q * 100 - of_int d\<bar> < 1/2" by simp
  then show ?thesis using tq by (simp add: amount_cents_def math_round_near del: math_round.simps)
qed

lemma amount_cents64_nan: "to_number v = Inr NaN \<Longrightarrow> amount_cents64 v = Inr NaN"
  by (simp add: amount_cents64_def to_number64_def js_mult64_def)

lemma amount_cents64_inf:
  "to_number64 v = Inr (if 0 < q then PosInf else NegInf) \<Longrightarrow>
     amount_cents64 v = Inr (if 0 < q then PosInf else NegInf)"
  by (simp add: amount_cents64_def js_mult64_def)

lemma amount_cents64_nonpos:
  assumes v: "to_number v = Inr (Fin q)" and q: "q \<le> 0" "- (10 ^ 305) \<le> q"
  shows "\<exists>k \<le> 0. amount_cents64 v = Inr (Fin (of_int k))"
proof -
  have "\<bar>q\<bar> < 2 ^ 1023" using q by simp
  then obtain x where x: "number_value q = Fin x" and ex: "\<bar>x - q\<bar> \<le> 2 ^ 969"
    using number_value_finite by blast
  have x0: "x \<le> 0" using number_value_nonpos [OF x q(1)] .
  have "\<bar>x * 100\<bar> < 2 ^ 1023" using x0 q ex by (simp add: abs_le_iff)
  then obtain y where y: "number_value (x * 100) = Fin y"
    using number_value_finite by blast
  have y0: "y \<le> 0" using number_value_nonpos [OF y] x0 by simp
  have "\<lfloor>y + 1/2\<rfloor> \<le> 0" using y0 by (simp add: floor_le_iff)
  moreover have "amount_cents64 v = Inr (Fin (of_int \<lfloor>y + 1/2\<rfloor>))"
    using v x y by (simp add: amount_cents64_def to_number64_def js_mult64_Fin)
  ultimately show ?thesis by blast
qed

lemma amount_cents64_huge:
  assumes v: "to_number v = Inr (Fin q)" and q: "10 ^ 307 \<le> \<bar>q\<bar>"
  shows "amount_cents64 v = Inr (if 0 < q then PosInf else NegInf)"
proof (cases "number_value q = (if 0 < q then PosInf else NegInf)")
  case True
  then show ?thesis using v by (intro amount_cents64_inf) (simp add: to_number64_def)
next
  case False
  then obtain x where x: "number_value q = Fin x" using number_value_cases [of q] by blast
  have "inverse (2 ^ 1022) \<le> \<bar>q\<bar>" using q by (rule order_trans [rotated]) simp
  then have ex: "\<bar>x - q\<bar> \<le> \<bar>q\<bar> / 2 ^ 53" by (rule number_value_err [OF x])
  have "\<bar>q\<bar> / 2 ^ 53 \<le> \<bar>q\<bar> / 2" by (simp add: divide_left_mono)
  then have h: "\<bar>x - q\<bar> \<le> \<bar>q\<bar> / 2" using ex by linarith
  have q0: "q \<noteq> 0" using q by auto
  have sx: "(0 < x * 100) = (0 < q)"
  proof (cases "0 < q")
    case True
    have "q - x \<le> \<bar>x - q\<bar>" using abs_ge_minus_self [of "x - q"] by simp
    then show ?thesis using True h by simp
  next
    case False
    then have "q < 0" using q0 by simp
    then show ?thesis using h by (simp add: abs_le_iff)
  qed
  have "\<bar>q\<bar> \<le> \<bar>x\<bar> + \<bar>x - q\<bar>" using abs_triangle_ineq [of x "q - x"] by (simp add: abs_minus_commute)
  then have "50 * \<bar>q\<bar> \<le> \<bar>x * 100\<bar>" using h by (simp add: abs_mult)
  moreover have "(2::rat) ^ 1025 \<le> 50 * 10 ^ 307" by simp
  ultimately have "2 ^ 1025 \<le> \<bar>x * 100\<bar>" using q by linarith
  then have "number_value (x * 100) = (if 0 < q then PosInf else NegInf)"
    using number_value_overflow sx by metis
  then show ?thesis using v x by (simp add: amount_cents64_def to_number64_def js_mult64_Fin)
qed

lemma amount_cents64_cents:
  assumes v: "to_number64 valor = Inr (number_value (of_int d / 100))" and d: "\<bar>d\<bar> \<le> 2 ^ 49"
  shows "amount_cents64 valor = Inr (Fin (of_int d))"
proof (cases "d = 0")
  case True
  then show ?thesis using v by (simp add: amount_cents64_def js_mult64_Fin)
next
  case False
  have d50: "\<bar>d\<bar> \<le> 2 ^ 50" using d by simp
  have "inverse (2 ^ 1022) \<le> \<bar>of_int d / (100::rat)\<bar>" "\<bar>of_int d / (100::rat)\<bar> < 2 ^ 1023"
    using cents_range [OF d50 False] by simp_all
  then obtain x where x: "number_value (of_int d / 100) = Fin x"
    using number_value_normal by blast
  show ?thesis using v x cents_round_trip [OF d50 False x] by (simp add: amount_cents64_def)
qed

text \<open>
  C12: an amount with at most two decimals, \<open>d / 100\<close> for an integer
  \<open>|d| \<le> 2\<^sup>4\<^sup>9\<close>, given as a string or as any value ToNumber converts to that
  Number value, becomes exactly \<open>d\<close> cents twice over: in the engine's
  binary64 arithmetic, which the order of \<open>Order.build_order\<close> carries (the
  roundings of the literal and of the product stay far below the half unit
  \<open>Math.round\<close> tolerates), and in the exact arithmetic of the decimal
  reference \<open>amount_cents\<close>: on such amounts the engine's roundings are
  invisible.
\<close>

theorem amount_cents64_two_decimals:
  assumes v: "to_number64 valor = Inr (number_value (of_int d / 100))" and d: "\<bar>d\<bar> \<le> 2 ^ 49"
  shows "amount_cents64 valor = Inr (Fin (of_int d)) \<and> amount_cents valor = Inr (Fin (of_int d))"
proof
  show "amount_cents64 valor = Inr (Fin (of_int d))" using v d by (rule amount_cents64_cents)
next
  show "amount_cents valor = Inr (Fin (of_int d))"
  proof (cases "d = 0")
    case True
    from v True obtain q where tq: "to_number valor = Inr (Fin q)" and nq: "number_value q = Fin 0"
      by (auto elim: to_number64_Fin)
    have "\<bar>q * 100 - of_int 0\<bar> < 1/2" using amount_zero_range [OF nq] by (simp add: abs_mult)
    then have "math_round (Fin (q * 100)) = Fin (of_int 0)" by (rule math_round_near)
    then show ?thesis using True tq by (simp add: amount_cents_def)
  next
    case False
    then show ?thesis using v d by (intro amount_cents_agrees)
  qed
qed

theorem amount_cents64_two_decimals_witness:
  "amount_cents64 (JNum (Fin (5826532017910579 / 562949953421312))) = Inr (Fin 1035) \<and>
   amount_cents (JNum (Fin (5826532017910579 / 562949953421312))) = Inr (Fin 1035)"
proof -
  have n: "number_value (of_int 1035 / 100) = Fin (5826532017910579 / 562949953421312)" by code_simp
  then have "to_number64 (JNum (Fin (5826532017910579 / 562949953421312))) = Inr (number_value (of_int 1035 / 100))"
    using number_value_fixed [OF n] by (simp add: to_number64_def)
  then have "amount_cents64 (JNum (Fin (5826532017910579 / 562949953421312))) = Inr (Fin (of_int 1035)) \<and>
             amount_cents (JNum (Fin (5826532017910579 / 562949953421312))) = Inr (Fin (of_int 1035))"
    by (rule amount_cents64_two_decimals) simp
  then show ?thesis by simp
qed

text \<open>
  An amount with a half cent is not rounded up as the decimal value would
  be: the Number value of \<open>1.005\<close> lies below \<open>1.005\<close>, and \<open>valor * 100\<close>
  rounds to \<open>100.49999999999999\<close>, so the order carries 100 cents where the
  exact computation gives 101.
\<close>

theorem amount_half_cent_b64:
  "number_value (1005 / 1000) = Fin (1131529406376837 / 1125899906842624) \<and>
   amount_cents64 (JNum (Fin (1131529406376837 / 1125899906842624))) = Inr (Fin 100) \<and>
   amount_cents64 (JStr ''1.005'') = Inr (Fin 100) \<and>
   amount_cents (JStr ''1.005'') = Inr (Fin 101)"
  by code_simp

end
