(* ===== verification/IsoDate.thy ===== *)
theory IsoDate
  imports JsValue
begin

text \<open>
  The expiration date of the QR code, \<open>new Date(Date.now() + 3600 * 1000).toISOString()\<close>
  (src/api/gerar-pix.js, line 53): a time value in milliseconds since the epoch,
  clipped by TimeClip to \<open>|t| \<le> 8.64e15\<close> (a Date outside is invalid and
  \<open>toISOString\<close> throws a RangeError), decomposed by the ECMAScript date
  algorithms (ECMA-262 21.4.1: Day, TimeWithinDay, DayFromYear, YearFromTime,
  InLeapYear, MonthFromTime, DateFromTime, HourFromTime, MinFromTime,
  SecFromTime, msFromTime) and printed in the Date Time String Format
  \<open>YYYY-MM-DDTHH:mm:ss.sssZ\<close>, with six-digit signed years outside 0..9999.
  YearFromTime is specified as "the largest year whose first day is not after
  the day"; it is computed here from an estimate and a search upwards, and
  the search is proved to return exactly that year.
\<close>

definition ms_per_day :: int where
  "ms_per_day = 86400000"

definition day_of :: "millis \<Rightarrow> int" where
  "day_of t = t div ms_per_day"

definition time_within_day :: "millis \<Rightarrow> int" where
  "time_within_day t = t mod ms_per_day"

definition days_in_year :: "int \<Rightarrow> int" where
  "days_in_year y =
     (if y mod 4 \<noteq> 0 then 365 else if y mod 100 \<noteq> 0 then 366
      else if y mod 400 \<noteq> 0 then 365 else 366)"

definition day_from_year :: "int \<Rightarrow> int" where
  "day_from_year y =
     365 * (y - 1970) + (y - 1969) div 4 - (y - 1901) div 100 + (y - 1601) div 400"

lemma leap_cycle_steps:
  fixes y :: int
  shows quad_step: "(y - 1968) div 4 = (y - 1969) div 4 + (if y mod 4 = 0 then 1 else 0)"
    and century_step: "(y - 1900) div 100 = (y - 1901) div 100 + (if y mod 100 = 0 then 1 else 0)"
    and quadcentury_step: "(y - 1600) div 400 = (y - 1601) div 400 + (if y mod 400 = 0 then 1 else 0)"
proof -
  have "(y - 492 * 4) mod 4 = y mod 4" by (rule mod_sub_multiple)
  then show "(y - 1968) div 4 = (y - 1969) div 4 + (if y mod 4 = 0 then 1 else 0)"
    using div_succ_int [of 4 "y - 1969"] by simp
next
  have "(y - 19 * 100) mod 100 = y mod 100" by (rule mod_sub_multiple)
  then show "(y - 1900) div 100 = (y - 1901) div 100 + (if y mod 100 = 0 then 1 else 0)"
    using div_succ_int [of 100 "y - 1901"] by simp
next
  have "(y - 4 * 400) mod 400 = y mod 400" by (rule mod_sub_multiple)
  then show "(y - 1600) div 400 = (y - 1601) div 400 + (if y mod 400 = 0 then 1 else 0)"
    using div_succ_int [of 400 "y - 1601"] by simp
qed

lemma day_from_year_succ: "day_from_year (y + 1) = day_from_year y + days_in_year y"
proof -
  have "day_from_year (y + 1) =
     365 * (y - 1969) + (y - 1968) div 4 - (y - 1900) div 100 + (y - 1600) div 400"
    by (simp add: day_from_year_def algebra_simps)
  then show ?thesis
    using mod_eq_0_trans [of y 100 4] mod_eq_0_trans [of y 400 100]
    by (simp add: leap_cycle_steps day_from_year_def days_in_year_def)
qed

lemma days_in_year_bounds: "365 \<le> days_in_year y" "days_in_year y \<le> 366"
  by (simp_all add: days_in_year_def)

lemma day_from_year_less_succ: "day_from_year y < day_from_year (y + 1)"
  using days_in_year_bounds(1) [of y] by (simp add: day_from_year_succ)

subsection \<open>YearFromTime\<close>

function year_search :: "int \<Rightarrow> int \<Rightarrow> int" where
  "year_search y d = (if day_from_year (y + 1) \<le> d then year_search (y + 1) d else y)"
  by pat_completeness auto
termination
proof (relation "measure (\<lambda>(y, d). nat (d - day_from_year y))")
  show "wf (measure (\<lambda>(y, d). nat (d - day_from_year y)))" by simp
next
  fix y d :: int
  assume "day_from_year (y + 1) \<le> d"
  with day_from_year_less_succ [of y]
  show "((y + 1, d), y, d) \<in> measure (\<lambda>(y, d). nat (d - day_from_year y))" by simp
qed

declare year_search.simps [simp del]

text \<open>
  The estimate is one below \<open>1970 + \<lfloor>d / 365.2425\<rfloor>\<close>; a Gregorian year has
  365.2425 days on average, and the first day of year \<open>1970 + k\<close> is at most
  \<open>365.2425 k + 1.48\<close>, so the estimate never passes the year of \<open>d\<close>.
\<close>

definition year_estimate :: "int \<Rightarrow> int" where
  "year_estimate d = 1969 + (d * 10000) div 3652425"

definition year_from_day :: "int \<Rightarrow> int" where
  "year_from_day d = year_search (year_estimate d) d"

lemma year_search_bracket:
  "day_from_year y \<le> d \<Longrightarrow>
     day_from_year (year_search y d) \<le> d \<and> d < day_from_year (year_search y d + 1)"
proof (induction y d rule: year_search.induct)
  case (1 y d)
  show ?case
  proof (cases "day_from_year (y + 1) \<le> d")
    case True
    with "1.IH" show ?thesis by (simp add: year_search.simps [of y d])
  next
    case False
    with "1.prems" show ?thesis by (simp add: year_search.simps [of y d])
  qed
qed

lemma div_bounds_int:
  fixes x k :: int
  assumes "0 < k"
  shows "k * (x div k) \<le> x" "x < k * (x div k) + k"
proof -
  have "x = k * (x div k) + x mod k" by simp
  moreover have "0 \<le> x mod k" "x mod k < k" using assms by simp_all
  ultimately show "k * (x div k) \<le> x" "x < k * (x div k) + k" by linarith+
qed

lemma year_estimate_le: "day_from_year (year_estimate d) \<le> d"
proof -
  define k where "k = (d * 10000) div 3652425 - 1"
  define A where "A = (k + 1) div 4"
  define B where "B = (k + 69) div 100"
  define C where "C = (k + 369) div 400"
  have ye: "year_estimate d = 1970 + k" by (simp add: year_estimate_def k_def)
  have e: "3652425 * k + 3652425 \<le> d * 10000"
    using div_bounds_int(1) [of 3652425 "d * 10000"] by (simp add: k_def)
  have a: "4 * A \<le> k + 1"
    using div_bounds_int(1) [of 4 "k + 1"] by (simp add: A_def)
  have b: "k + 69 < 100 * B + 100"
    using div_bounds_int(2) [of 100 "k + 69"] by (simp add: B_def)
  have c: "400 * C \<le> k + 369"
    using div_bounds_int(1) [of 400 "k + 369"] by (simp add: C_def)
  have "3650000 * k + 10000 * A - 10000 * B + 10000 * C < d * 10000"
    using e a b c by linarith
  moreover have "day_from_year (1970 + k) = 365 * k + A - B + C"
    by (simp add: day_from_year_def A_def B_def C_def algebra_simps)
  ultimately have "day_from_year (1970 + k) \<le> d" by linarith
  with ye show ?thesis by simp
qed

lemma day_from_year_mono: "y \<le> y' \<Longrightarrow> day_from_year y \<le> day_from_year y'"
proof (induction "nat (y' - y)" arbitrary: y')
  case 0
  then show ?case by simp
next
  case (Suc n)
  then have "n = nat ((y' - 1) - y)" and "y \<le> y' - 1" by simp_all
  then have "day_from_year y \<le> day_from_year (y' - 1)" by (rule Suc.hyps)
  also have "\<dots> < day_from_year y'"
    using day_from_year_less_succ [of "y' - 1"] by simp
  finally show ?case by simp
qed

lemma year_from_day_bracket:
  "day_from_year (year_from_day d) \<le> d \<and> d < day_from_year (year_from_day d + 1)"
  unfolding year_from_day_def by (rule year_search_bracket [OF year_estimate_le])

definition in_leap_year :: "int \<Rightarrow> bool" where
  "in_leap_year y \<longleftrightarrow> days_in_year y = 366"

subsection \<open>MonthFromTime and DateFromTime\<close>

text \<open>The day within the year on which month \<open>m\<close> (0 = January) starts.\<close>

definition month_start :: "bool \<Rightarrow> nat \<Rightarrow> int" where
  "month_start leap m =
     (let l = (if leap then 1 else 0)
      in [0, 31, 59 + l, 90 + l, 120 + l, 151 + l, 181 + l, 212 + l, 243 + l, 273 + l,
          304 + l, 334 + l, 365 + l] ! m)"

text \<open>
  MonthFromTime is the month whose start is the last one not after the day
  within the year: a search from January over the later month starts.
\<close>

function month_search :: "bool \<Rightarrow> int \<Rightarrow> nat \<Rightarrow> nat" where
  "month_search leap dwy m =
     (if m < 11 \<and> month_start leap (Suc m) \<le> dwy then month_search leap dwy (Suc m) else m)"
  by pat_completeness auto
termination
  by (relation "measure (\<lambda>(leap, dwy, m). 11 - m)") auto

declare month_search.simps [simp del]

definition month_from_dwy :: "bool \<Rightarrow> int \<Rightarrow> nat" where
  "month_from_dwy leap dwy = month_search leap dwy 0"

definition date_from_dwy :: "bool \<Rightarrow> int \<Rightarrow> int" where
  "date_from_dwy leap dwy = dwy - month_start leap (month_from_dwy leap dwy) + 1"

text \<open>The calendar fields of a time value.\<close>

record date_fields =
  df_year :: int
  df_month :: nat
  df_date :: int
  df_hours :: int
  df_minutes :: int
  df_seconds :: int
  df_millis :: int

definition date_fields_of :: "millis \<Rightarrow> date_fields" where
  "date_fields_of t =
     (let d = day_of t; y = year_from_day d; leap = in_leap_year y;
          dwy = d - day_from_year y; w = time_within_day t
      in \<lparr>df_year = y, df_month = month_from_dwy leap dwy, df_date = date_from_dwy leap dwy,
          df_hours = w div 3600000, df_minutes = (w div 60000) mod 60,
          df_seconds = (w div 1000) mod 60, df_millis = w mod 1000\<rparr>)"

subsection \<open>Date.prototype.toISOString\<close>

definition max_time :: int where
  "max_time = 8640000000000000"

definition iso_year :: "int \<Rightarrow> string" where
  "iso_year y =
     (if 0 \<le> y \<and> y \<le> 9999 then pad_dec 4 (nat y)
      else (if y < 0 then CHR ''-'' else CHR ''+'') # pad_dec 6 (nat \<bar>y\<bar>))"

definition iso_format :: "date_fields \<Rightarrow> string" where
  "iso_format f =
     iso_year (df_year f) @ ''-'' @ pad_dec 2 (df_month f + 1) @ ''-'' @ pad_dec 2 (nat (df_date f))
     @ ''T'' @ pad_dec 2 (nat (df_hours f)) @ '':'' @ pad_dec 2 (nat (df_minutes f))
     @ '':'' @ pad_dec 2 (nat (df_seconds f)) @ ''.'' @ pad_dec 3 (nat (df_millis f)) @ ''Z''"

text \<open>\<open>new Date(t).toISOString()\<close> for an integral time value \<open>t\<close>.\<close>

definition to_iso_string :: "millis \<Rightarrow> js_error + string" where
  "to_iso_string t =
     (if max_time < \<bar>t\<bar> then Inl (RangeError ''Invalid time value'')
      else Inr (iso_format (date_fields_of t)))"

subsection \<open>Properties\<close>

text \<open>
  The year search returns ECMAScript's YearFromTime: the year \<open>y\<close> with
  \<open>DayFromYear(y) \<le> d < DayFromYear(y + 1)\<close>, that is the largest year whose
  first day is not after day \<open>d\<close>.
\<close>

lemma year_from_day_iff:
  "year_from_day d = y \<longleftrightarrow> day_from_year y \<le> d \<and> d < day_from_year (y + 1)"
proof
  assume "year_from_day d = y"
  with year_from_day_bracket [of d] show "day_from_year y \<le> d \<and> d < day_from_year (y + 1)" by simp
next
  assume y: "day_from_year y \<le> d \<and> d < day_from_year (y + 1)"
  let ?z = "year_from_day d"
  have z: "day_from_year ?z \<le> d" "d < day_from_year (?z + 1)" using year_from_day_bracket [of d] by simp_all
  show "?z = y"
  proof (rule ccontr)
    assume "?z \<noteq> y"
    then consider "?z + 1 \<le> y" | "y + 1 \<le> ?z" by linarith
    then show False
    proof cases
      case 1
      then have "day_from_year (?z + 1) \<le> day_from_year y" by (rule day_from_year_mono)
      with y z show False by linarith
    next
      case 2
      then have "day_from_year (y + 1) \<le> day_from_year ?z" by (rule day_from_year_mono)
      with y z show False by linarith
    qed
  qed
qed

lemma month_start_ends [simp]:
  "month_start leap 0 = 0" "month_start leap 12 = 365 + (if leap then 1 else 0)"
  by (simp_all add: month_start_def)

lemma month_start_year: "month_start (in_leap_year y) 12 = days_in_year y"
  using days_in_year_bounds [of y] by (auto simp: in_leap_year_def)

lemma month_search_bracket:
  "month_start leap m \<le> dwy \<Longrightarrow> m \<le> 11 \<Longrightarrow> dwy < month_start leap 12 \<Longrightarrow>
   month_search leap dwy m \<le> 11 \<and> month_start leap (month_search leap dwy m) \<le> dwy \<and>
   dwy < month_start leap (Suc (month_search leap dwy m))"
proof (induction leap dwy m rule: month_search.induct)
  case (1 leap dwy m)
  show ?case
  proof (cases "m < 11 \<and> month_start leap (Suc m) \<le> dwy")
    case True
    with "1.IH" "1.prems" show ?thesis by (simp add: month_search.simps [of leap dwy m])
  next
    case False
    then have "m = 11 \<or> dwy < month_start leap (Suc m)" using "1.prems"(2) by linarith
    with "1.prems" show ?thesis
      by (auto simp: month_search.simps [of leap dwy m] numeral_eq_Suc)
  qed
qed

lemma day_within_year_bounds:
  "0 \<le> day_of t - day_from_year (year_from_day (day_of t))"
  "day_of t - day_from_year (year_from_day (day_of t)) < days_in_year (year_from_day (day_of t))"
  using year_from_day_bracket [of "day_of t"] day_from_year_succ [of "year_from_day (day_of t)"]
  by simp_all

lemma month_of_time:
  fixes t :: millis
  defines "y \<equiv> year_from_day (day_of t)"
  defines "dwy \<equiv> day_of t - day_from_year y"
  shows "month_from_dwy (in_leap_year y) dwy \<le> 11 \<and>
         month_start (in_leap_year y) (month_from_dwy (in_leap_year y) dwy) \<le> dwy \<and>
         dwy < month_start (in_leap_year y) (Suc (month_from_dwy (in_leap_year y) dwy))"
  unfolding month_from_dwy_def
proof (rule month_search_bracket)
  show "month_start (in_leap_year y) 0 \<le> dwy" using day_within_year_bounds(1) [of t] by (simp add: dwy_def y_def)
  show "dwy < month_start (in_leap_year y) 12"
    using day_within_year_bounds(2) [of t] by (simp add: dwy_def y_def month_start_year del: month_start_ends)
qed simp

text \<open>
  ECMAScript's MakeDate(MakeDay(year, month, date), MakeTime(h, min, s, ms)) on
  fields within range: the time value the fields denote.
\<close>

definition make_time_value :: "date_fields \<Rightarrow> millis" where
  "make_time_value f =
     (day_from_year (df_year f) + month_start (in_leap_year (df_year f)) (df_month f) + df_date f - 1)
       * ms_per_day
     + df_hours f * 3600000 + df_minutes f * 60000 + df_seconds f * 1000 + df_millis f"

lemma time_split:
  "(w::int) = 3600000 * (w div 3600000) + 60000 * (w div 60000 mod 60) + 1000 * (w div 1000 mod 60) + w mod 1000"
proof -
  have a: "w mod 3600000 = 60000 * (w div 60000 mod 60) + w mod 60000"
    using zmod_zmult2_eq [of 60 w 60000] by simp
  have b: "w mod 60000 = 1000 * (w div 1000 mod 60) + w mod 1000"
    using zmod_zmult2_eq [of 60 w 1000] by simp
  have c: "w = 3600000 * (w div 3600000) + w mod 3600000" by simp
  from a b c show ?thesis by linarith
qed

lemma make_time_value_day:
  "make_time_value (date_fields_of t) = day_of t * ms_per_day + time_within_day t"
proof -
  define w where "w = time_within_day t"
  have "make_time_value (date_fields_of t) =
        day_of t * ms_per_day + (3600000 * (w div 3600000) + 60000 * (w div 60000 mod 60)
          + 1000 * (w div 1000 mod 60) + w mod 1000)"
    by (simp add: make_time_value_def date_fields_of_def date_from_dwy_def Let_def w_def algebra_simps)
  also have "\<dots> = day_of t * ms_per_day + w"
    using time_split [of w] by simp
  finally show ?thesis by (simp add: w_def)
qed

lemma day_time_split: "day_of t * ms_per_day + time_within_day t = t"
  by (simp add: day_of_def time_within_day_def)

text \<open>
  The fields \<open>toISOString\<close> prints denote exactly the time value they
  were computed from: printing loses nothing (the decomposition round-trips).
\<close>

lemma date_fields_recompose: "make_time_value (date_fields_of t) = t"
  using make_time_value_day [of t] day_time_split [of t] by simp

lemma month_length_le:
  "m \<le> 11 \<Longrightarrow> month_start leap (Suc m) - month_start leap m \<le> 31"
  by (cases leap) (auto simp: month_start_def le_Suc_eq numeral_eq_Suc)

lemma date_fields_valid:
  fixes t :: millis
  defines "f \<equiv> date_fields_of t"
  shows "df_month f \<le> 11 \<and> 1 \<le> df_date f \<and>
         df_date f \<le> month_start (in_leap_year (df_year f)) (Suc (df_month f))
                      - month_start (in_leap_year (df_year f)) (df_month f) \<and>
         0 \<le> df_hours f \<and> df_hours f < 24 \<and> 0 \<le> df_minutes f \<and> df_minutes f < 60 \<and>
         0 \<le> df_seconds f \<and> df_seconds f < 60 \<and> 0 \<le> df_millis f \<and> df_millis f < 1000"
proof -
  define y where "y = year_from_day (day_of t)"
  define dwy where "dwy = day_of t - day_from_year y"
  define m where "m = month_from_dwy (in_leap_year y) dwy"
  define w where "w = time_within_day t"
  have mb: "m \<le> 11" "month_start (in_leap_year y) m \<le> dwy"
    "dwy < month_start (in_leap_year y) (Suc m)"
    using month_of_time [of t] by (simp_all add: m_def dwy_def y_def)
  have w: "0 \<le> w" "w < 86400000" by (simp_all add: w_def time_within_day_def ms_per_day_def)
  have f: "f =
      \<lparr>df_year = y, df_month = m, df_date = dwy - month_start (in_leap_year y) m + 1,
       df_hours = w div 3600000, df_minutes = (w div 60000) mod 60,
       df_seconds = (w div 1000) mod 60, df_millis = w mod 1000\<rparr>"
    by (simp add: f_def date_fields_of_def Let_def y_def dwy_def m_def w_def date_from_dwy_def)
  have h: "w div 3600000 < 24" using w by simp
  show ?thesis using mb w h by (simp add: f)
qed

text \<open>
  Every field \<open>toISOString\<close> prints is within its range: month 1-12,
  day 1-31, hours 0-23, minutes and seconds 0-59, milliseconds 0-999.
\<close>

lemma date_fields_ranges:
  "df_month (date_fields_of t) \<le> 11 \<and> 1 \<le> df_date (date_fields_of t) \<and> df_date (date_fields_of t) \<le> 31 \<and>
   0 \<le> df_hours (date_fields_of t) \<and> df_hours (date_fields_of t) < 24 \<and>
   0 \<le> df_minutes (date_fields_of t) \<and> df_minutes (date_fields_of t) < 60 \<and>
   0 \<le> df_seconds (date_fields_of t) \<and> df_seconds (date_fields_of t) < 60 \<and>
   0 \<le> df_millis (date_fields_of t) \<and> df_millis (date_fields_of t) < 1000"
proof -
  let ?f = "date_fields_of t"
  have v: "df_month ?f \<le> 11"
    "df_date ?f \<le> month_start (in_leap_year (df_year ?f)) (Suc (df_month ?f))
                 - month_start (in_leap_year (df_year ?f)) (df_month ?f)"
    using date_fields_valid [of t] by simp_all
  have "month_start (in_leap_year (df_year ?f)) (Suc (df_month ?f))
          - month_start (in_leap_year (df_year ?f)) (df_month ?f) \<le> 31"
    using v(1) by (rule month_length_le)
  then show ?thesis using date_fields_valid [of t] v(2) by linarith
qed

end
