(* ===== verification/Order.thy ===== *)
theory Order
  imports Binary64 IsoDate
begin

text \<open>
  The order sent to the provider, \<open>pedido\<close> (src/api/gerar-pix.js, lines 34-56),
  built by an object literal whose parts are evaluated left to right: the
  reference id from the first clock reading, the customer block (the name
  defaulted by \<open>nome || "Cliente"\<close>, a fixed e-mail, and the tax id normalised
  by \<open>cpf.replace(/\D/g, '')\<close>), one line item and one QR-code request, both
  with the amount \<open>Math.round(valor * 100)\<close> in the engine's binary64
  arithmetic (\<open>amount_cents64\<close> of theory Binary64), and the expiration date from the
  second clock reading.  The first of these steps that throws aborts the
  construction with its error, as the exception would.
\<close>

subsection \<open>Tax id normalisation\<close>

text \<open>
  \<open>/\D/g\<close> matches every code unit that is not an ASCII digit; replacing all
  matches by the empty string keeps exactly the ASCII digits, in order.
\<close>

definition strip_non_digits :: "string \<Rightarrow> string" where
  "strip_non_digits s = filter is_dec_digit s"

text \<open>
  \<open>cpf.replace(...)\<close> on a value that is not a string: values parsed from
  JSON have no callable \<open>replace\<close> (an object's own \<open>replace\<close> property is
  data, not a function), so the call throws.
\<close>

definition tax_id_of :: "jval \<Rightarrow> js_error + string" where
  "tax_id_of cpf =
     (case cpf of
        JStr s \<Rightarrow> Inr (strip_non_digits s)
      | _ \<Rightarrow> Inl (TypeError ''cpf.replace is not a function''))"

subsection \<open>The order\<close>

definition customer_name :: "jval \<Rightarrow> jval" where
  "customer_name nome = (if truthy nome then nome else JStr ''Cliente'')"

definition expiration_date :: "millis \<Rightarrow> js_error + string" where
  "expiration_date now = to_iso_string (now + 3600 * 1000)"

definition order_json :: "millis \<Rightarrow> jval \<Rightarrow> string \<Rightarrow> jsnum \<Rightarrow> jsnum \<Rightarrow> string \<Rightarrow> jval" where
  "order_json now_ref nome tax amount_item amount_qr expiry =
     JObj [(''reference_id'', JStr (''PEDIDO-'' @ int_to_dec now_ref)),
           (''customer'', JObj [(''name'', customer_name nome),
                                (''email'', JStr ''cliente@loja.com''),
                                (''tax_id'', JStr tax)]),
           (''items'', JArr [JObj [(''name'', JStr ''Salgados Tia Ana''),
                                   (''quantity'', JNum (Fin 1)),
                                   (''unit_amount'', JNum amount_item)]]),
           (''qr_codes'', JArr [JObj [(''amount'', JObj [(''value'', JNum amount_qr)]),
                                     (''expiration_date'', JStr expiry)]])]"

text \<open>
  \<open>build_order now_ref now_exp valor nome cpf\<close>: the two clock readings are
  the two calls of \<open>Date.now()\<close> (lines 35 and 53); \<open>valor * 100\<close> is
  evaluated twice (lines 45 and 51), as the source does.
\<close>

definition build_order :: "millis \<Rightarrow> millis \<Rightarrow> jval \<Rightarrow> jval \<Rightarrow> jval \<Rightarrow> js_error + jval" where
  "build_order now_ref now_exp valor nome cpf =
     ebind (tax_id_of cpf) (\<lambda>tax.
     ebind (amount_cents64 valor) (\<lambda>a1.
     ebind (amount_cents64 valor) (\<lambda>a2.
     ebind (expiration_date now_exp) (\<lambda>expiry.
       Inr (order_json now_ref nome tax a1 a2 expiry)))))"

subsection \<open>Properties\<close>

text \<open>The display format of a CPF, \<open>ddd.ddd.ddd-dd\<close>.\<close>

definition cpf_mask :: "string \<Rightarrow> string" where
  "cpf_mask d = take 3 d @ ''.'' @ take 3 (drop 3 d) @ ''.'' @ take 3 (drop 6 d) @ ''-'' @ drop 9 d"

lemma strip_non_digits_append [simp]:
  "strip_non_digits (xs @ ys) = strip_non_digits xs @ strip_non_digits ys"
  by (simp add: strip_non_digits_def)

lemma strip_non_digits_digits: "\<forall>c \<in> set d. is_dec_digit c \<Longrightarrow> strip_non_digits d = d"
  by (simp add: strip_non_digits_def)

lemma strip_non_digits_Cons [simp]:
  "strip_non_digits (c # xs) = (if is_dec_digit c then c # strip_non_digits xs else strip_non_digits xs)"
  by (simp add: strip_non_digits_def)

text \<open>
  C13: the normalisation of line 39 recovers the eleven digits of a CPF written
  in its display format, as the spec's example \<open>123.456.789-00\<close> does.
\<close>

theorem tax_id_of_masked_cpf:
  assumes "\<forall>c \<in> set d. is_dec_digit c"
  shows "tax_id_of (JStr (cpf_mask d)) = Inr d"
proof -
  have sub: "\<forall>c \<in> set (take 3 d) \<union> set (take 3 (drop 3 d)) \<union> set (take 3 (drop 6 d)) \<union> set (drop 9 d).
               is_dec_digit c"
    using assms by (auto dest: in_set_takeD in_set_dropD)
  have "take 3 d @ take 3 (drop 3 d) @ take 3 (drop 6 d) @ drop 9 d = d"
    by (metis append_take_drop_id drop_drop numeral_3_eq_3 add_numeral_left semiring_norm(2)
        semiring_norm(5) semiring_norm(8) numeral_Bit0 numeral_Bit1 numeral_One)
  with sub show ?thesis
    by (simp add: tax_id_of_def cpf_mask_def strip_non_digits_digits)
qed

theorem tax_id_of_masked_cpf_witness: "tax_id_of (JStr ''123.456.789-00'') = Inr ''12345678900''"
proof -
  have "\<forall>c \<in> set ''12345678900''. is_dec_digit c" by (simp add: is_dec_digit_def)
  then have "tax_id_of (JStr (cpf_mask ''12345678900'')) = Inr ''12345678900''"
    by (rule tax_id_of_masked_cpf)
  then show ?thesis by (simp add: cpf_mask_def)
qed

lemma tax_id_of_non_string:
  "(\<forall>s. c \<noteq> JStr s) \<Longrightarrow> tax_id_of c = Inl (TypeError ''cpf.replace is not a function'')"
  by (cases c) (simp_all add: tax_id_of_def)

text \<open>
  C24: the reference id of the order is determined by the first clock
  reading alone, and determines it: two orders share a reference id exactly
  when they were built in the same millisecond, whatever their contents.
\<close>

theorem order_reference_iff:
  "get_prop (order_json t n tx a1 a2 x) ''reference_id'' = get_prop (order_json t' n' tx' a1' a2' x') ''reference_id''
     \<longleftrightarrow> t = t'"
  by (simp add: order_json_def get_field_def int_to_dec_inj)

end
