(* ===== verification/Provider.thy ===== *)
theory Provider
  imports JsValue
begin

text \<open>
  The mapping of the provider's reply (src/api/gerar-pix.js, lines 69-90).  The
  reply body \<open>data\<close> is what \<open>response.json()\<close> parsed; the HTTP status of the
  reply is not read by the code.  If \<open>data.qr_codes\<close> is truthy and its
  \<open>length\<close> compares greater than 0, the first entry \<open>pix\<close> gives the
  copy-paste code \<open>pix.text\<close> and, through \<open>pix.links.find(l => l.rel ===
  "QRCODE.PNG")\<close>, the image link; otherwise the reply counts as a rejection.
  Every property read on \<open>null\<close> or \<open>undefined\<close> and every call of \<open>find\<close> on a
  non-array throws a TypeError, which the handler's \<open>catch\<close> turns into a 500.
\<close>

datatype reply_outcome =
    QrFound jval  \<comment> \<open>the object \<open>{id, qr_code, qr_code_base64_url}\<close> of line 82\<close>
  | Rejected jval \<comment> \<open>the reply body, sent back as \<open>detalhe\<close>\<close>

text \<open>\<open>Array.prototype.find\<close> with the predicate \<open>l => l.rel === "QRCODE.PNG"\<close>.\<close>

fun find_link :: "jval list \<Rightarrow> js_error + jval option" where
  "find_link [] = Inr None"
| "find_link (l # ls) =
     ebind (get_prop l ''rel'') (\<lambda>r. if strict_eq_str r ''QRCODE.PNG'' then Inr (Some l) else find_link ls)"

text \<open>Lines 76-80: \<open>imagemQr\<close> starts as \<open>null\<close>.\<close>

definition qr_image :: "jval \<Rightarrow> js_error + jval" where
  "qr_image pix =
     ebind (get_prop pix ''links'') (\<lambda>links.
       if \<not> truthy links then Inr JNull
       else case links of
              JArr ls \<Rightarrow>
                ebind (find_link ls) (\<lambda>found.
                  case found of
                    None \<Rightarrow> Inr JNull
                  | Some l \<Rightarrow> if truthy l then get_prop l ''href'' else Inr JNull)
            | _ \<Rightarrow> Inl (TypeError ''pix.links.find is not a function''))"

text \<open>Lines 73-86: the success branch, with the reads in the order they run.\<close>

definition qr_result :: "jval \<Rightarrow> jval \<Rightarrow> js_error + reply_outcome" where
  "qr_result data qrs =
     ebind (get_prop qrs ''0'') (\<lambda>pix.
     ebind (qr_image pix) (\<lambda>img.
     ebind (get_prop data ''id'') (\<lambda>oid.
     ebind (get_prop pix ''text'') (\<lambda>txt.
       Inr (QrFound (JObj [(''id'', oid), (''qr_code'', txt), (''qr_code_base64_url'', img)]))))))"

text \<open>Line 72: \<open>data.qr_codes && data.qr_codes.length > 0\<close>.\<close>

definition map_reply :: "jval \<Rightarrow> js_error + reply_outcome" where
  "map_reply data =
     ebind (get_prop data ''qr_codes'') (\<lambda>qrs.
       if \<not> truthy qrs then Inr (Rejected data)
       else ebind (get_prop qrs ''length'') (\<lambda>len.
            ebind (to_number len) (\<lambda>n.
              if js_less (Fin 0) n then qr_result data qrs else Inr (Rejected data))))"

subsection \<open>Properties of the mapping\<close>

lemma find_link_skip:
  "\<forall>x \<in> set pre. \<exists>m. x = JObj m \<and> map_of m ''rel'' \<noteq> Some (JStr ''QRCODE.PNG'') \<Longrightarrow>
   find_link (pre @ ls) = find_link ls"
proof (induction pre)
  case Nil
  then show ?case by simp
next
  case (Cons x pre)
  then obtain m where x: "x = JObj m" and r: "map_of m ''rel'' \<noteq> Some (JStr ''QRCODE.PNG'')" by auto
  from r have "\<not> strict_eq_str (get_field m ''rel'') ''QRCODE.PNG''"
    by (auto simp: strict_eq_str_def get_field_def split: option.split)
  with Cons x show ?case by simp
qed

lemma find_link_hit:
  "map_of l ''rel'' = Some (JStr ''QRCODE.PNG'') \<Longrightarrow> find_link (JObj l # post) = Inr (Some (JObj l))"
  by (simp add: strict_eq_str_def)

lemma map_reply_empty:
  "map_of kvs ''qr_codes'' = Some (JArr []) \<Longrightarrow> map_reply (JObj kvs) = Inr (Rejected (JObj kvs))"
  by (simp add: map_reply_def)

lemma map_reply_falsy:
  "\<not> truthy (get_field kvs ''qr_codes'') \<Longrightarrow> map_reply (JObj kvs) = Inr (Rejected (JObj kvs))"
  by (simp add: map_reply_def)

text \<open>
  C6: a reply whose \<open>qr_codes\<close> is a non-empty array of objects is mapped to
  the order id, the first QR code's \<open>text\<close> and the \<open>href\<close> of the first
  link of that entry tagged \<open>QRCODE.PNG\<close> (the links before it being objects
  with another tag).
\<close>

theorem map_reply_first_qr:
  assumes "map_of kvs ''qr_codes'' = Some (JArr (JObj pix # rest))"
    and "map_of pix ''links'' = Some (JArr (pre @ JObj l # post))"
    and "\<forall>x \<in> set pre. \<exists>m. x = JObj m \<and> map_of m ''rel'' \<noteq> Some (JStr ''QRCODE.PNG'')"
    and "map_of l ''rel'' = Some (JStr ''QRCODE.PNG'')"
  shows "map_reply (JObj kvs) =
           Inr (QrFound (JObj [(''id'', get_field kvs ''id''), (''qr_code'', get_field pix ''text''),
                               (''qr_code_base64_url'', get_field l ''href'')]))"
proof -
  have img: "qr_image (JObj pix) = Inr (get_field l ''href'')"
    using assms(2-4) by (simp add: qr_image_def find_link_skip strict_eq_str_def)
  have "0 < (of_nat (length (JObj pix # rest)) :: rat)" by simp
  then show ?thesis
    using assms(1) img by (simp add: map_reply_def qr_result_def)
qed

theorem map_reply_first_qr_witness:
  "map_reply (JObj [(''id'', JStr ''O1''),
                    (''qr_codes'', JArr [JObj [(''text'', JStr ''X''),
                       (''links'', JArr [JObj [(''rel'', JStr ''QRCODE.PNG''), (''href'', JStr ''U'')]])]])])
   = Inr (QrFound (JObj [(''id'', JStr ''O1''), (''qr_code'', JStr ''X''), (''qr_code_base64_url'', JStr ''U'')]))"
  using map_reply_first_qr [of "[(''id'', JStr ''O1''),
                    (''qr_codes'', JArr [JObj [(''text'', JStr ''X''),
                       (''links'', JArr [JObj [(''rel'', JStr ''QRCODE.PNG''), (''href'', JStr ''U'')]])]])]"
      "[(''text'', JStr ''X''), (''links'', JArr [JObj [(''rel'', JStr ''QRCODE.PNG''), (''href'', JStr ''U'')]])]"
      "[]" "[]" "[(''rel'', JStr ''QRCODE.PNG''), (''href'', JStr ''U'')]" "[]"]
  by (simp add: get_field_def)

end
