(* ===== verification/Handler.thy ===== *)
theory Handler
  imports Order Provider
begin

text \<open>
  The request handler \<open>handler(req, res)\<close> of src/api/gerar-pix.js (lines 1-96),
  as one function of its inputs: the configured token \<open>process.env.PAGBANK_TOKEN\<close>,
  the provider (the one \<open>fetch\<close> call and the \<open>response.json()\<close> that follows,
  lines 59-69, as a function of the outbound request), the two readings of
  \<open>Date.now()\<close>, and the request's method and parsed body.  Its result records
  what the code does to the world: the response it sends (or the exception that
  escapes it), the lines it logs with \<open>console.error\<close>, and the outbound
  requests it makes.
\<close>

subsection \<open>Requests, responses, effects\<close>

record request =
  req_method :: string
  req_body :: jval

record outbound =
  ob_url :: string
  ob_method :: string
  ob_headers :: "(string \<times> string) list"
  ob_body :: jval

text \<open>
  The provider as the handler sees it: \<open>fetch\<close> rejects (a network error), or
  it resolves and \<open>response.json()\<close> rejects (a body that is not JSON) or
  resolves to the parsed body.
\<close>

datatype fetch_result =
    FetchFailed js_error
  | Replied "js_error + jval"

type_synonym provider = "outbound \<Rightarrow> fetch_result"

datatype body = NoBody | JsonBody jval

record http_response =
  status :: nat
  headers :: "(string \<times> string) list"
  body :: body

datatype log_entry =
    LogTokenMissing
  | LogProviderRejected jval
  | LogInternal js_error

datatype outcome =
    Responded http_response
  | Uncaught js_error

record run =
  outcome :: outcome
  logs :: "log_entry list"
  calls :: "outbound list"

subsection \<open>Constants of the source\<close>

text \<open>Lines 3-6; \<open>setHeader\<close> stores \<open>true\<close> and sends it as \<open>"true"\<close>.\<close>

definition cors_headers :: "(string \<times> string) list" where
  "cors_headers =
     [(''Access-Control-Allow-Credentials'', ''true''),
      (''Access-Control-Allow-Origin'', ''*''),
      (''Access-Control-Allow-Methods'', ''GET,OPTIONS,PATCH,DELETE,POST,PUT''),
      (''Access-Control-Allow-Headers'',
        ''X-CSRF-Token, X-Requested-With, Accept, Accept-Version, Content-Length, Content-MD5, Content-Type, Date, X-Api-Version'')]"

text \<open>The messages of lines 14, 22, 29 and 89, with their Latin-1 code units.\<close>

definition msg_method :: string where
  "msg_method = ''M'' @ [CHR 0xE9] @ ''todo n'' @ [CHR 0xE3] @ ''o permitido''"

definition msg_token :: string where
  "msg_token = ''Configura'' @ [CHR 0xE7, CHR 0xE3] @ ''o de servidor pendente (Token).''"

definition msg_cpf :: string where
  "msg_cpf = ''CPF '' @ [CHR 0xE9] @ '' obrigat'' @ [CHR 0xF3] @ ''rio para Pix no PagBank.''"

definition msg_rejected :: string where
  "msg_rejected = ''O PagBank recusou o pedido. Verifique o CPF.''"

definition error_body :: "string \<Rightarrow> jval" where
  "error_body m = JObj [(''error'', JStr m)]"

definition reply :: "nat \<Rightarrow> jval \<Rightarrow> http_response" where
  "reply st v = \<lparr>status = st, headers = cors_headers, body = JsonBody (json_serialize v)\<rparr>"

text \<open>Lines 59-67: the outbound request.\<close>

definition provider_request :: "string \<Rightarrow> jval \<Rightarrow> outbound" where
  "provider_request token pedido =
     \<lparr>ob_url = ''https://api.pagseguro.com/orders'', ob_method = ''POST'',
      ob_headers = [(''Authorization'', ''Bearer '' @ token),
                    (''Content-Type'', ''application/json''),
                    (''accept'', ''application/json'')],
      ob_body = json_serialize pedido\<rparr>"

subsection \<open>The handler\<close>

text \<open>Line 25: destructuring \<open>req.body\<close> reads \<open>valor\<close>, \<open>nome\<close>, \<open>cpf\<close> in order.\<close>

definition destructure_error :: "string \<Rightarrow> js_error" where
  "destructure_error what =
     TypeError (''Cannot destructure property '' @ [CHR 0x27] @ ''valor'' @ [CHR 0x27]
                @ '' of '' @ [CHR 0x27] @ ''req.body'' @ [CHR 0x27] @ '' as it is '' @ what @ ''.'')"

definition destructure :: "jval \<Rightarrow> js_error + jval \<times> jval \<times> jval" where
  "destructure b =
     (case b of
        JUndef \<Rightarrow> Inl (destructure_error ''undefined'')
      | JNull \<Rightarrow> Inl (destructure_error ''null'')
      | _ \<Rightarrow> ebind (get_prop b ''valor'') (\<lambda>v.
             ebind (get_prop b ''nome'') (\<lambda>n.
             ebind (get_prop b ''cpf'') (\<lambda>c. Inr (v, n, c)))))"

text \<open>Lines 92-95: the \<open>catch\<close> block.\<close>

definition internal_error :: "log_entry list \<Rightarrow> outbound list \<Rightarrow> js_error \<Rightarrow> run" where
  "internal_error ls cs e =
     \<lparr>outcome = Responded (reply 500 (error_body (error_message e))),
      logs = ls @ [LogInternal e], calls = cs\<rparr>"

text \<open>Lines 69-90, after the outbound call \<open>ob\<close> has been made.\<close>

definition after_fetch :: "outbound \<Rightarrow> fetch_result \<Rightarrow> run" where
  "after_fetch ob r =
     (case r of
        FetchFailed e \<Rightarrow> internal_error [] [ob] e
      | Replied (Inl e) \<Rightarrow> internal_error [] [ob] e
      | Replied (Inr data) \<Rightarrow>
          (case map_reply data of
             Inl e \<Rightarrow> internal_error [] [ob] e
           | Inr (QrFound v) \<Rightarrow> \<lparr>outcome = Responded (reply 200 v), logs = [], calls = [ob]\<rparr>
           | Inr (Rejected d) \<Rightarrow>
               \<lparr>outcome = Responded (reply 400 (JObj [(''error'', JStr msg_rejected), (''detalhe'', d)])),
                logs = [LogProviderRejected d], calls = [ob]\<rparr>))"

text \<open>Lines 32-95: the \<open>try\<close> block.\<close>

definition create_order :: "provider \<Rightarrow> millis \<Rightarrow> millis \<Rightarrow> string \<Rightarrow> jval \<Rightarrow> jval \<Rightarrow> jval \<Rightarrow> run" where
  "create_order fetch now_ref now_exp token valor nome cpf =
     (case build_order now_ref now_exp valor nome cpf of
        Inl e \<Rightarrow> internal_error [] [] e
      | Inr pedido \<Rightarrow> (let ob = provider_request token pedido in after_fetch ob (fetch ob)))"

definition respond :: "http_response \<Rightarrow> log_entry list \<Rightarrow> run" where
  "respond r ls = \<lparr>outcome = Responded r, logs = ls, calls = []\<rparr>"

text \<open>Lines 25-30 and the \<open>try\<close> block: the POST path once the token is known.\<close>

definition handle_post :: "provider \<Rightarrow> millis \<Rightarrow> millis \<Rightarrow> string \<Rightarrow> jval \<Rightarrow> run" where
  "handle_post fetch now_ref now_exp token b =
     (case destructure b of
        Inl e \<Rightarrow> \<lparr>outcome = Uncaught e, logs = [], calls = []\<rparr>
      | Inr (valor, nome, cpf) \<Rightarrow>
          if \<not> truthy cpf then respond (reply 400 (error_body msg_cpf)) []
          else create_order fetch now_ref now_exp token valor nome cpf)"

text \<open>Lines 1-23: CORS preflight, the method gate and the configuration check.\<close>

definition handler :: "string option \<Rightarrow> provider \<Rightarrow> millis \<Rightarrow> millis \<Rightarrow> request \<Rightarrow> run" where
  "handler env_token fetch now_ref now_exp req =
     (if req_method req = ''OPTIONS''
      then respond \<lparr>status = 200, headers = cors_headers, body = NoBody\<rparr> []
      else if req_method req \<noteq> ''POST''
      then respond (reply 405 (error_body msg_method)) []
      else case env_token of
             None \<Rightarrow> respond (reply 500 (error_body msg_token)) [LogTokenMissing]
           | Some token \<Rightarrow>
               if token = [] then respond (reply 500 (error_body msg_token)) [LogTokenMissing]
               else handle_post fetch now_ref now_exp token (req_body req))"

subsection \<open>What each path does\<close>

lemma internal_error_fields [simp]:
  "outcome (internal_error ls cs e) = Responded (reply 500 (error_body (error_message e)))"
  "logs (internal_error ls cs e) = ls @ [LogInternal e]"
  "calls (internal_error ls cs e) = cs"
  by (simp_all add: internal_error_def)

lemma respond_fields [simp]:
  "outcome (respond r ls) = Responded r" "logs (respond r ls) = ls" "calls (respond r ls) = []"
  by (simp_all add: respond_def)

lemma reply_fields [simp]:
  "status (reply st v) = st" "headers (reply st v) = cors_headers"
  "body (reply st v) = JsonBody (json_serialize v)"
  by (simp_all add: reply_def)

lemma after_fetch_calls [simp]: "calls (after_fetch ob r) = [ob]"
  by (simp add: after_fetch_def split: fetch_result.split sum.split reply_outcome.split)

lemma after_fetch_not_uncaught [simp]: "outcome (after_fetch ob r) \<noteq> Uncaught e"
  by (simp add: after_fetch_def split: fetch_result.split sum.split reply_outcome.split)

lemma after_fetch_headers:
  "outcome (after_fetch ob r) = Responded resp \<Longrightarrow> headers resp = cors_headers"
  by (auto simp: after_fetch_def split: fetch_result.splits sum.splits reply_outcome.splits)

lemma create_order_cases:
  "create_order fetch t1 t2 tok v n c =
     (case build_order t1 t2 v n c of
        Inl e \<Rightarrow> internal_error [] [] e
      | Inr p \<Rightarrow> after_fetch (provider_request tok p) (fetch (provider_request tok p)))"
  by (cases "build_order t1 t2 v n c") (simp_all add: create_order_def Let_def)

lemma create_order_calls: "length (calls (create_order fetch t1 t2 tok v n c)) \<le> 1"
  by (simp add: create_order_cases split: sum.split)

lemma create_order_not_uncaught [simp]: "outcome (create_order fetch t1 t2 tok v n c) \<noteq> Uncaught e"
  by (simp add: create_order_cases split: sum.split)

lemma create_order_headers:
  "outcome (create_order fetch t1 t2 tok v n c) = Responded resp \<Longrightarrow> headers resp = cors_headers"
  by (auto simp: create_order_cases dest: after_fetch_headers split: sum.splits)

lemma handle_post_calls: "length (calls (handle_post fetch t1 t2 tok b)) \<le> 1"
  using create_order_calls [of fetch t1 t2 tok]
  by (auto simp: handle_post_def split: sum.split prod.split)

lemma handle_post_uncaught:
  "outcome (handle_post fetch t1 t2 tok b) = Uncaught e \<longleftrightarrow> destructure b = Inl e"
  by (auto simp: handle_post_def split: sum.split prod.split)

lemma handle_post_headers:
  "outcome (handle_post fetch t1 t2 tok b) = Responded resp \<Longrightarrow> headers resp = cors_headers"
  by (auto simp: handle_post_def dest: create_order_headers split: sum.splits prod.splits if_splits)

lemma handler_post_token:
  "req_method req = ''POST'' \<Longrightarrow> env_token = Some tok \<Longrightarrow> tok \<noteq> [] \<Longrightarrow>
   handler env_token fetch t1 t2 req = handle_post fetch t1 t2 tok (req_body req)"
  by (simp add: handler_def)

lemma destructure_obj:
  "destructure (JObj kvs) =
     Inr (get_field kvs ''valor'', get_field kvs ''nome'', get_field kvs ''cpf'')"
  by (simp add: destructure_def)

lemma handle_post_create:
  "destructure b = Inr (v, n, c) \<Longrightarrow> truthy c \<Longrightarrow>
   handle_post fetch t1 t2 tok b = create_order fetch t1 t2 tok v n c"
  by (simp add: handle_post_def)

lemma create_order_sent:
  "build_order t1 t2 v n c = Inr p \<Longrightarrow>
   create_order fetch t1 t2 tok v n c = after_fetch (provider_request tok p) (fetch (provider_request tok p))"
  by (simp add: create_order_cases)

lemma after_fetch_rejected:
  "map_reply data = Inr (Rejected d) \<Longrightarrow>
   after_fetch ob (Replied (Inr data)) =
     \<lparr>outcome = Responded (reply 400 (JObj [(''error'', JStr msg_rejected), (''detalhe'', d)])),
      logs = [LogProviderRejected d], calls = [ob]\<rparr>"
  by (simp add: after_fetch_def)

lemma handler_reaches_order:
  "tok \<noteq> [] \<Longrightarrow> destructure b = Inr (v, n, c) \<Longrightarrow> truthy c \<Longrightarrow> build_order t1 t2 v n c = Inr p \<Longrightarrow>
   handler (Some tok) fetch t1 t2 \<lparr>req_method = ''POST'', req_body = b\<rparr>
     = after_fetch (provider_request tok p) (fetch (provider_request tok p))"
  by (simp add: handler_def handle_post_create create_order_sent)

end
