(* ===== verification/Contract.thy ===== *)
theory Contract
  imports Handler
begin

text \<open>
  The documented contract of the endpoint (spec.md, sections 3, 4.1 and 6) as
  an abstract specification, and the refinement of it by the handler.
\<close>

subsection \<open>The provider's reply, typed\<close>

record qr_entry =
  qr_text :: string
  qr_links :: "(string \<times> string) list option"

record provider_reply =
  reply_id :: string
  reply_qrs :: "qr_entry list"

definition encode_link :: "string \<times> string \<Rightarrow> jval" where
  "encode_link l = JObj [(''rel'', JStr (fst l)), (''href'', JStr (snd l))]"

definition encode_qr :: "qr_entry \<Rightarrow> jval" where
  "encode_qr q =
     JObj ((''text'', JStr (qr_text q)) #
           (case qr_links q of None \<Rightarrow> [] | Some ls \<Rightarrow> [(''links'', JArr (map encode_link ls))]))"

definition encode_reply :: "provider_reply \<Rightarrow> jval" where
  "encode_reply a = JObj [(''id'', JStr (reply_id a)), (''qr_codes'', JArr (map encode_qr (reply_qrs a)))]"

definition png_link :: "qr_entry \<Rightarrow> string option" where
  "png_link q =
     (case qr_links q of
        None \<Rightarrow> None
      | Some ls \<Rightarrow> map_option snd (find (\<lambda>l. fst l = ''QRCODE.PNG'') ls))"

datatype pix_decision = PixQuote string string "string option" | PixDeclined

definition spec_map_reply :: "provider_reply \<Rightarrow> pix_decision" where
  "spec_map_reply a =
     (case reply_qrs a of [] \<Rightarrow> PixDeclined | q # _ \<Rightarrow> PixQuote (reply_id a) (qr_text q) (png_link q))"

definition quote_json :: "string \<Rightarrow> string \<Rightarrow> string option \<Rightarrow> jval" where
  "quote_json i t u =
     JObj [(''id'', JStr i), (''qr_code'', JStr t),
           (''qr_code_base64_url'', case u of None \<Rightarrow> JNull | Some h \<Rightarrow> JStr h)]"

definition realize_decision :: "provider_reply \<Rightarrow> pix_decision \<Rightarrow> reply_outcome" where
  "realize_decision a d =
     (case d of PixQuote i t u \<Rightarrow> QrFound (quote_json i t u) | PixDeclined \<Rightarrow> Rejected (encode_reply a))"

lemma find_link_encoded:
  "find_link (map encode_link ls) = Inr (map_option encode_link (find (\<lambda>l. fst l = ''QRCODE.PNG'') ls))"
  by (induction ls) (auto simp: encode_link_def strict_eq_str_def)

lemma encode_link_props [simp]:
  "truthy (encode_link l)" "get_prop (encode_link l) ''href'' = Inr (JStr (snd l))"
  by (simp_all add: encode_link_def)

lemma qr_image_encoded:
  "qr_image (encode_qr q) = Inr (case png_link q of None \<Rightarrow> JNull | Some h \<Rightarrow> JStr h)"
  by (auto simp: qr_image_def encode_qr_def png_link_def find_link_encoded get_field_def
           split: option.split)

lemma map_reply_encoded: "map_reply (encode_reply a) = Inr (realize_decision a (spec_map_reply a))"
proof (cases "reply_qrs a")
  case Nil
  then show ?thesis by (simp add: map_reply_def encode_reply_def spec_map_reply_def realize_decision_def)
next
  case (Cons q qs)
  have "get_prop (encode_qr q) ''text'' = Inr (JStr (qr_text q))"
    by (simp add: encode_qr_def)
  with Cons show ?thesis
    by (simp add: map_reply_def qr_result_def encode_reply_def spec_map_reply_def realize_decision_def
                  quote_json_def qr_image_encoded split: option.split)
qed

text \<open>
  C20: the mapping of the provider's reply refines section 4.1, steps 7 and 8:
  on every reply of the documented shape (an \<open>id\<close>, a \<open>qr_codes\<close> array of
  entries with \<open>text\<close> and optional \<open>links\<close> of \<open>{rel, href}\<close>), the
  handler's reads give exactly the abstract decision: the first entry's text
  and the \<open>href\<close> of its first \<open>QRCODE.PNG\<close> link (null when there is none),
  or a rejection when the list is empty.
\<close>

theorem map_reply_refines: "map_reply (encode_reply a) = Inr (realize_decision a (spec_map_reply a))"
proof (cases "reply_qrs a")
  case Nil
  then show ?thesis by (simp add: map_reply_def encode_reply_def spec_map_reply_def realize_decision_def)
next
  case (Cons q qs)
  have tx: "get_prop (encode_qr q) ''text'' = Inr (JStr (qr_text q))"
    by (simp add: encode_qr_def)
  have img: "qr_image (encode_qr q) = Inr (case png_link q of None \<Rightarrow> JNull | Some h \<Rightarrow> JStr h)"
    by (auto simp: qr_image_def encode_qr_def png_link_def find_link_encoded get_field_def split: option.split)
  from Cons tx img show ?thesis
    by (simp add: map_reply_def qr_result_def encode_reply_def spec_map_reply_def realize_decision_def
                  quote_json_def split: option.split)
qed

subsection \<open>The payment request and the order, typed\<close>

text \<open>
  PaymentRequest of spec section 3: an amount in major units, the decimal
  the client writes, an optional payer name and the tax id, which the inbound
  contract of section 6 requires and the handler checks.  The request body
  carries the amount as a JSON number, whose value is the Number value of the
  decimal, as \<open>JSON.parse\<close> reads it.
\<close>

record pay_request =
  pr_amount :: rat
  pr_name :: "string option"
  pr_tax_id :: "string option"

definition opt_field :: "string \<Rightarrow> string option \<Rightarrow> (string \<times> jval) list" where
  "opt_field k v = (case v of None \<Rightarrow> [] | Some s \<Rightarrow> [(k, JStr s)])"

definition encode_request :: "pay_request \<Rightarrow> jval" where
  "encode_request r =
     JObj ((''valor'', JNum (number_value (pr_amount r))) # opt_field ''nome'' (pr_name r) @ opt_field ''cpf'' (pr_tax_id r))"

text \<open>The order of section 4.1, step 5, with the amount in integer minor units.\<close>

record spec_order =
  ord_reference :: millis
  ord_name :: string
  ord_tax_id :: string
  ord_amount :: int
  ord_expires :: millis

text \<open>\<open>round(amount \<times> 100)\<close>, halves upwards.\<close>

definition minor_units :: "rat \<Rightarrow> int" where
  "minor_units a = \<lfloor>a * 100 + 1/2\<rfloor>"

text \<open>
  A currency amount: whole centavos, at most \<open>2\<^sup>4\<^sup>9\<close> of them (about 5.6e12
  reais).  Section 3 calls the amount a decimal currency value; \<open>round(amount
  \<times> 100)\<close> of step 5 is its number of centavos.
\<close>

definition two_decimals :: "rat \<Rightarrow> bool" where
  "two_decimals a = (let c = a * 100 in c = of_int \<lfloor>c\<rfloor> \<and> \<bar>c\<bar> \<le> 2 ^ 49)"

definition payer_name :: "string option \<Rightarrow> string" where
  "payer_name n = (case n of Some s \<Rightarrow> if s = [] then ''Cliente'' else s | None \<Rightarrow> ''Cliente'')"

definition spec_order_of :: "millis \<Rightarrow> millis \<Rightarrow> pay_request \<Rightarrow> string \<Rightarrow> spec_order" where
  "spec_order_of t1 t2 r c =
     \<lparr>ord_reference = t1, ord_name = payer_name (pr_name r), ord_tax_id = filter is_dec_digit c,
      ord_amount = minor_units (pr_amount r), ord_expires = t2 + 3600 * 1000\<rparr>"

definition encode_order :: "spec_order \<Rightarrow> jval" where
  "encode_order od =
     JObj [(''reference_id'', JStr (''PEDIDO-'' @ int_to_dec (ord_reference od))),
           (''customer'', JObj [(''name'', JStr (ord_name od)),
                                (''email'', JStr ''cliente@loja.com''),
                                (''tax_id'', JStr (ord_tax_id od))]),
           (''items'', JArr [JObj [(''name'', JStr ''Salgados Tia Ana''),
                                   (''quantity'', JNum (Fin 1)),
                                   (''unit_amount'', JNum (Fin (of_int (ord_amount od))))]]),
           (''qr_codes'', JArr [JObj [(''amount'', JObj [(''value'', JNum (Fin (of_int (ord_amount od))))]),
                                     (''expiration_date'', JStr (iso_format (date_fields_of (ord_expires od))))]])]"

lemma destructure_encoded:
  "destructure (encode_request r) =
     Inr (JNum (number_value (pr_amount r)),
          (case pr_name r of None \<Rightarrow> JUndef | Some n \<Rightarrow> JStr n),
          (case pr_tax_id r of None \<Rightarrow> JUndef | Some c \<Rightarrow> JStr c))"
  by (simp add: destructure_obj encode_request_def opt_field_def get_field_def split: option.split)

lemma two_decimals_cents:
  assumes "two_decimals a"
  shows "a = of_int (minor_units a) / 100 \<and> \<bar>minor_units a\<bar> \<le> 2 ^ 49"
proof -
  obtain d where d: "d = \<lfloor>a * 100\<rfloor>" by simp
  with assms have c: "a * 100 = of_int d" and b: "\<bar>a * 100\<bar> \<le> 2 ^ 49"
    by (simp_all add: two_decimals_def Let_def)
  have m: "minor_units a = d" by (simp add: minor_units_def c)
  have "(of_int \<bar>d\<bar> :: rat) \<le> of_int (2 ^ 49)" using b c by simp
  then have "\<bar>d\<bar> \<le> 2 ^ 49" by (simp only: of_int_le_iff)
  moreover have "a = of_int d / 100" using c by (simp add: eq_divide_eq)
  ultimately show ?thesis using m by simp
qed

lemma amount_cents64_encoded:
  assumes "two_decimals a"
  shows "amount_cents64 (JNum (number_value a)) = Inr (Fin (of_int (minor_units a)))"
proof -
  have a: "a = of_int (minor_units a) / 100" and d: "\<bar>minor_units a\<bar> \<le> 2 ^ 49"
    using two_decimals_cents [OF assms] by simp_all
  have "to_number64 (JNum (number_value a)) = Inr (number_value (of_int (minor_units a) / 100))"
    using to_number64_number_value [of a] a by metis
  then show ?thesis using d by (rule amount_cents64_cents)
qed

lemma build_order_encoded:
  assumes "two_decimals (pr_amount r)" and "\<bar>t2 + 3600 * 1000\<bar> \<le> max_time"
  shows "build_order t1 t2 (JNum (number_value (pr_amount r))) (case pr_name r of None \<Rightarrow> JUndef | Some n \<Rightarrow> JStr n) (JStr c)
           = Inr (encode_order (spec_order_of t1 t2 r c))"
  using assms(2) amount_cents64_encoded [OF assms(1)]
  by (simp add: build_order_def tax_id_of_def strip_non_digits_def expiration_date_def
                to_iso_string_def order_json_def encode_order_def spec_order_of_def
                customer_name_def payer_name_def split: option.split)

subsection \<open>The contract of the handler\<close>

text \<open>What the provider call can give, as section 7 classifies it.\<close>

datatype provider_answer =
    NetworkFailure js_error
  | MalformedReply js_error
  | Answer provider_reply

text \<open>The outcomes of the table of section 6, one constructor per row.\<close>

datatype verdict =
    Preflight
  | MethodNotAllowed
  | ConfigMissing
  | TaxIdMissing
  | Quote string string "string option"
  | Declined provider_reply
  | Internal js_error

record contract_run =
  verdict :: verdict
  sent :: "spec_order option"

definition answer_verdict :: "provider_answer \<Rightarrow> verdict" where
  "answer_verdict ans =
     (case ans of
        NetworkFailure e \<Rightarrow> Internal e
      | MalformedReply e \<Rightarrow> Internal e
      | Answer a \<Rightarrow> (case spec_map_reply a of PixQuote i t u \<Rightarrow> Quote i t u | PixDeclined \<Rightarrow> Declined a))"

text \<open>
  The linear state machine of section 4.1: preflight, method gate,
  configuration, tax id, then one provider call whose answer decides.  An
  empty string counts as absent, as for the name.
\<close>

definition spec_handler ::
  "string \<Rightarrow> string option \<Rightarrow> millis \<Rightarrow> millis \<Rightarrow> pay_request \<Rightarrow> (spec_order \<Rightarrow> provider_answer) \<Rightarrow> contract_run" where
  "spec_handler m env t1 t2 r P =
     (if m = ''OPTIONS'' then \<lparr>verdict = Preflight, sent = None\<rparr>
      else if m \<noteq> ''POST'' then \<lparr>verdict = MethodNotAllowed, sent = None\<rparr>
      else if env = None \<or> env = Some [] then \<lparr>verdict = ConfigMissing, sent = None\<rparr>
      else case pr_tax_id r of
             None \<Rightarrow> \<lparr>verdict = TaxIdMissing, sent = None\<rparr>
           | Some c \<Rightarrow>
               if c = [] then \<lparr>verdict = TaxIdMissing, sent = None\<rparr>
               else let od = spec_order_of t1 t2 r c in \<lparr>verdict = answer_verdict (P od), sent = Some od\<rparr>)"

text \<open>How a contract run shows on the wire: the response, the log lines and the outbound call.\<close>

definition conc_answer :: "provider_answer \<Rightarrow> fetch_result" where
  "conc_answer ans =
     (case ans of
        NetworkFailure e \<Rightarrow> FetchFailed e
      | MalformedReply e \<Rightarrow> Replied (Inl e)
      | Answer a \<Rightarrow> Replied (Inr (encode_reply a)))"

definition verdict_run :: "outbound list \<Rightarrow> verdict \<Rightarrow> run" where
  "verdict_run cs v =
     (case v of
        Preflight \<Rightarrow> respond \<lparr>status = 200, headers = cors_headers, body = NoBody\<rparr> []
      | MethodNotAllowed \<Rightarrow> respond (reply 405 (error_body msg_method)) []
      | ConfigMissing \<Rightarrow> respond (reply 500 (error_body msg_token)) [LogTokenMissing]
      | TaxIdMissing \<Rightarrow> respond (reply 400 (error_body msg_cpf)) []
      | Quote i t u \<Rightarrow> \<lparr>outcome = Responded (reply 200 (quote_json i t u)), logs = [], calls = cs\<rparr>
      | Declined a \<Rightarrow>
          \<lparr>outcome = Responded (reply 400 (JObj [(''error'', JStr msg_rejected), (''detalhe'', encode_reply a)])),
           logs = [LogProviderRejected (encode_reply a)], calls = cs\<rparr>
      | Internal e \<Rightarrow> internal_error [] cs e)"

definition realize :: "string option \<Rightarrow> contract_run \<Rightarrow> run" where
  "realize env cr =
     verdict_run (case (env, sent cr) of (Some tk, Some od) \<Rightarrow> [provider_request tk (encode_order od)] | _ \<Rightarrow> [])
                 (verdict cr)"

lemma after_fetch_answer:
  "after_fetch ob (conc_answer ans) = verdict_run [ob] (answer_verdict ans)"
  by (auto simp: after_fetch_def conc_answer_def answer_verdict_def map_reply_encoded realize_decision_def
                 verdict_run_def split: provider_answer.split pix_decision.split)

text \<open>
  C19: the handler refines the documented contract.  For every method, token,
  pair of clock readings whose expiration instant is a valid date (within
  8.64e15 ms of the epoch), well-typed request (section 6: a numeric \<open>valor\<close>
  holding a currency amount in whole centavos, an optional
  string \<open>nome\<close>, a string \<open>cpf\<close> or none), and every provider whose
  answers to the orders of the contract are a network failure, a malformed
  body or a reply of the documented shape, the concrete run (response,
  headers, log lines and outbound calls) is the realisation of the abstract
  run: the verdict of the table of section 6 and the one order sent.  The
  amount of that order is \<open>round(amount \<times> 100)\<close> of the decimal, although the
  handler receives the amount's binary64 value and multiplies in binary64.
\<close>

theorem handler_refines_contract:
  assumes "\<forall>tk od. fetch (provider_request tk (encode_order od)) = conc_answer (P od)"
    and "\<bar>t2 + 3600 * 1000\<bar> \<le> max_time" and "two_decimals (pr_amount r)"
  shows "handler env fetch t1 t2 \<lparr>req_method = m, req_body = encode_request r\<rparr> =
           realize env (spec_handler m env t1 t2 r P)"
proof -
  have post: "handle_post fetch t1 t2 tk (encode_request r) =
                realize (Some tk) (spec_handler ''POST'' (Some tk) t1 t2 r P)" if "tk \<noteq> []" for tk
  proof (cases "pr_tax_id r")
    case None
    with that show ?thesis by (simp add: handle_post_def destructure_encoded spec_handler_def realize_def verdict_run_def)
  next
    case (Some c)
    show ?thesis
    proof (cases "c = []")
      case True
      with Some that show ?thesis by (simp add: handle_post_def destructure_encoded spec_handler_def realize_def verdict_run_def)
    next
      case False
      let ?od = "spec_order_of t1 t2 r c"
      have "handle_post fetch t1 t2 tk (encode_request r) =
              after_fetch (provider_request tk (encode_order ?od)) (conc_answer (P ?od))"
        using Some False assms
        by (simp add: handle_post_def destructure_encoded create_order_sent build_order_encoded [OF assms(3,2)])
      with Some False that show ?thesis
        by (simp add: spec_handler_def realize_def after_fetch_answer Let_def)
    qed
  qed
  show ?thesis
  proof (cases "m = ''POST'' \<and> env \<noteq> None \<and> env \<noteq> Some []")
    case True
    then obtain tk where "m = ''POST''" and "env = Some tk" and "tk \<noteq> []" by auto
    then show ?thesis using post [of tk] by (simp add: handler_def)
  next
    case False
    then show ?thesis by (auto simp: handler_def spec_handler_def realize_def verdict_run_def)
  qed
qed

theorem handler_refines_contract_witness:
  "handler (Some ''tok'')
     (\<lambda>_. conc_answer (Answer \<lparr>reply_id = ''O1'', reply_qrs = [\<lparr>qr_text = ''X'', qr_links = Some [(''QRCODE.PNG'', ''U'')]\<rparr>]\<rparr>)) 0 0
     \<lparr>req_method = ''POST'',
      req_body = encode_request \<lparr>pr_amount = 21/2, pr_name = None, pr_tax_id = Some ''123.456.789-00''\<rparr>\<rparr> =
   realize (Some ''tok'')
     (spec_handler ''POST'' (Some ''tok'') 0 0 \<lparr>pr_amount = 21/2, pr_name = None, pr_tax_id = Some ''123.456.789-00''\<rparr>
        (\<lambda>_. Answer \<lparr>reply_id = ''O1'', reply_qrs = [\<lparr>qr_text = ''X'', qr_links = Some [(''QRCODE.PNG'', ''U'')]\<rparr>]\<rparr>))"
  by (rule handler_refines_contract) (simp_all add: max_time_def two_decimals_def)

end
