(* ===== verification/Server.thy ===== *)
theory Server
  imports Handler "HOL-Library.Multiset"
begin

text \<open>
  Invocations of the handler interleaved by the runtime (spec.md, section 5).
  The handler is an \<open>async\<close> function: it runs synchronously up to
  \<open>await fetch(...)\<close> (src/api/gerar-pix.js, line 59), is suspended until
  the provider answers, and resumes with the mapping of the reply (lines
  69-95).  Other invocations run while one is suspended.  Here the handler is
  split at that point, the split is shown to agree with the sequential model,
  and a step relation interleaves any number of invocations.
\<close>

subsection \<open>The handler split at its await\<close>

datatype stage = Finished run | Suspended outbound

text \<open>Lines 25-67 of the POST path, up to the call of \<open>fetch\<close>.\<close>

definition start_order :: "millis \<Rightarrow> millis \<Rightarrow> string \<Rightarrow> jval \<Rightarrow> jval \<Rightarrow> jval \<Rightarrow> stage" where
  "start_order now_ref now_exp token valor nome cpf =
     (case build_order now_ref now_exp valor nome cpf of
        Inl e \<Rightarrow> Finished (internal_error [] [] e)
      | Inr pedido \<Rightarrow> Suspended (provider_request token pedido))"

definition start_post :: "millis \<Rightarrow> millis \<Rightarrow> string \<Rightarrow> jval \<Rightarrow> stage" where
  "start_post now_ref now_exp token b =
     (case destructure b of
        Inl e \<Rightarrow> Finished \<lparr>outcome = Uncaught e, logs = [], calls = []\<rparr>
      | Inr (valor, nome, cpf) \<Rightarrow>
          if \<not> truthy cpf then Finished (respond (reply 400 (error_body msg_cpf)) [])
          else start_order now_ref now_exp token valor nome cpf)"

text \<open>Lines 1-67: everything the handler does before it first suspends.\<close>

definition handler_start :: "string option \<Rightarrow> millis \<Rightarrow> millis \<Rightarrow> request \<Rightarrow> stage" where
  "handler_start env_token now_ref now_exp req =
     (if req_method req = ''OPTIONS''
      then Finished (respond \<lparr>status = 200, headers = cors_headers, body = NoBody\<rparr> [])
      else if req_method req \<noteq> ''POST''
      then Finished (respond (reply 405 (error_body msg_method)) [])
      else case env_token of
             None \<Rightarrow> Finished (respond (reply 500 (error_body msg_token)) [LogTokenMissing])
           | Some token \<Rightarrow>
               if token = [] then Finished (respond (reply 500 (error_body msg_token)) [LogTokenMissing])
               else start_post now_ref now_exp token (req_body req))"

text \<open>The continuation: the provider's answer to the suspended call, then lines 69-95.\<close>

fun resume :: "provider \<Rightarrow> stage \<Rightarrow> run" where
  "resume fetch (Finished r) = r"
| "resume fetch (Suspended ob) = after_fetch ob (fetch ob)"

lemma start_post_split:
  "handle_post fetch t1 t2 tok b =
     (case start_post t1 t2 tok b of Finished r \<Rightarrow> r | Suspended ob \<Rightarrow> after_fetch ob (fetch ob))"
  by (simp add: handle_post_def start_post_def start_order_def create_order_cases split: sum.split prod.split)

lemma handler_split: "handler env fetch t1 t2 req = resume fetch (handler_start env t1 t2 req)"
proof -
  have "handle_post fetch t1 t2 tok b = resume fetch (start_post t1 t2 tok b)" for tok b
    by (simp add: start_post_split split: stage.split)
  then show ?thesis by (simp add: handler_def handler_start_def split: option.split)
qed

lemma handler_start_suspended:
  "handler_start env t1 t2 req = Suspended ob \<Longrightarrow> \<exists>tk p. env = Some tk \<and> tk \<noteq> [] \<and> ob = provider_request tk p"
  by (auto simp: handler_start_def start_post_def start_order_def
           split: if_splits option.splits sum.splits prod.splits)

lemma handler_start_finished_calls:
  "handler_start env t1 t2 req = Finished r \<Longrightarrow> calls r = []"
  by (auto simp: handler_start_def start_post_def start_order_def
           split: if_splits option.splits sum.splits prod.splits)

subsection \<open>Interleaved invocations\<close>

text \<open>
  One invocation: the request and the two readings of \<open>Date.now()\<close> it makes.
  The world records the invocations not yet started, those suspended at the
  await with the request they sent, those finished with their run, and the
  requests on the wire to the provider in the order they were sent.
\<close>

record invocation =
  inv_req :: request
  inv_ref :: millis
  inv_exp :: millis

record world =
  todo :: "nat list"
  waiting :: "(nat \<times> outbound) list"
  finished :: "(nat \<times> run) list"
  wire :: "outbound list"

definition start_world :: "nat \<Rightarrow> world" where
  "start_world n = \<lparr>todo = [0..<n], waiting = [], finished = [], wire = []\<rparr>"

definition start_of :: "string option \<Rightarrow> invocation \<Rightarrow> stage" where
  "start_of env v = handler_start env (inv_ref v) (inv_exp v) (inv_req v)"

text \<open>
  A step runs the synchronous part of a pending invocation, or resumes a
  suspended one with whatever the provider answers at that moment.  The token
  is the one configuration value all invocations share, read-only.
\<close>

inductive server_step :: "string option \<Rightarrow> invocation list \<Rightarrow> world \<Rightarrow> world \<Rightarrow> bool"
  for env :: "string option" and invs :: "invocation list" where
  run_to_end:
    "i \<in> set (todo w) \<Longrightarrow> start_of env (invs ! i) = Finished r \<Longrightarrow>
     server_step env invs w (w\<lparr>todo := remove1 i (todo w), finished := finished w @ [(i, r)]\<rparr>)"
| run_to_await:
    "i \<in> set (todo w) \<Longrightarrow> start_of env (invs ! i) = Suspended ob \<Longrightarrow>
     server_step env invs w (w\<lparr>todo := remove1 i (todo w), waiting := waiting w @ [(i, ob)],
                               wire := wire w @ [ob]\<rparr>)"
| resume_answer:
    "(i, ob) \<in> set (waiting w) \<Longrightarrow>
     server_step env invs w (w\<lparr>waiting := remove1 (i, ob) (waiting w),
                               finished := finished w @ [(i, after_fetch ob res)]\<rparr>)"

inductive_cases server_stepE: "server_step env invs w w'"

inductive server_reach :: "string option \<Rightarrow> invocation list \<Rightarrow> world \<Rightarrow> bool"
  for env :: "string option" and invs :: "invocation list" where
  start: "server_reach env invs (start_world (length invs))"
| step: "server_reach env invs w \<Longrightarrow> server_step env invs w w' \<Longrightarrow> server_reach env invs w'"

text \<open>
  The invariant: every invocation is in exactly one of the three places; what
  is on the wire is exactly the requests of the suspended invocations and the
  calls of the finished ones; every finished run is the sequential handler's
  run on that invocation for some answer of the provider; every suspended one
  is at the await of its own invocation.
\<close>

definition owners :: "world \<Rightarrow> nat list" where
  "owners w = todo w @ map fst (waiting w) @ map fst (finished w)"

definition wire_owed :: "world \<Rightarrow> outbound multiset" where
  "wire_owed w = mset (map snd (waiting w)) + mset (concat (map (calls \<circ> snd) (finished w)))"

definition server_inv :: "string option \<Rightarrow> invocation list \<Rightarrow> world \<Rightarrow> bool" where
  "server_inv env invs w \<longleftrightarrow>
     distinct (owners w) \<and> set (owners w) = {0..<length invs} \<and>
     mset (wire w) = wire_owed w \<and>
     (\<forall>(i, ob) \<in> set (waiting w). start_of env (invs ! i) = Suspended ob) \<and>
     (\<forall>(i, r) \<in> set (finished w). \<exists>res. r = handler env (\<lambda>_. res) (inv_ref (invs ! i)) (inv_exp (invs ! i)) (inv_req (invs ! i)))"

lemma server_inv_start: "server_inv env invs (start_world (length invs))"
  by (simp add: server_inv_def start_world_def owners_def wire_owed_def)

lemma mset_remove1_member [simp]: "x \<in> set xs \<Longrightarrow> mset (remove1 x xs) + {#x#} = mset xs"
  by (simp add: mset_remove1)

lemma server_step_owners:
  "server_step env invs w w' \<Longrightarrow> mset (owners w') = mset (owners w)"
proof (induction rule: server_step.induct)
  case (run_to_end i w r)
  then show ?case by (simp add: owners_def mset_remove1 add.commute add.left_commute)
next
  case (run_to_await i w ob)
  then show ?case by (simp add: owners_def mset_remove1 add.commute add.left_commute)
next
  case (resume_answer i ob w res)
  then have m: "image_mset fst (mset (waiting w)) = add_mset i (image_mset fst (mset (waiting w) - {#(i, ob)#}))"
    by (metis image_mset_add_mset insert_DiffM fst_conv set_mset_mset)
  show ?case by (simp add: owners_def m mset_remove1)
qed

lemma image_mset_remove_member:
  "x \<in> set xs \<Longrightarrow> image_mset f (mset xs) = add_mset (f x) (image_mset f (mset xs - {#x#}))"
  by (metis image_mset_add_mset insert_DiffM set_mset_mset)

lemma server_step_wire:
  assumes "server_step env invs w w'" and "mset (wire w) = wire_owed w"
  shows "mset (wire w') = wire_owed w'"
  using assms
proof (induction rule: server_step.induct)
  case (run_to_end i w r)
  then have "calls r = []" by (simp add: start_of_def handler_start_finished_calls)
  with run_to_end show ?case by (simp add: wire_owed_def)
next
  case (run_to_await i w ob)
  then show ?case by (simp add: wire_owed_def)
next
  case (resume_answer i ob w res)
  then have "image_mset snd (mset (waiting w)) = add_mset ob (image_mset snd (mset (waiting w) - {#(i, ob)#}))"
    using image_mset_remove_member [of "(i, ob)" "waiting w" snd] by simp
  with resume_answer show ?case by (simp add: wire_owed_def mset_remove1)
qed

lemma server_step_waiting:
  assumes "server_step env invs w w'" and "\<forall>(i, ob) \<in> set (waiting w). start_of env (invs ! i) = Suspended ob"
  shows "\<forall>(i, ob) \<in> set (waiting w'). start_of env (invs ! i) = Suspended ob"
  using assms by cases (auto dest: set_remove1_subset [THEN subsetD])

lemma server_step_finished:
  assumes "server_step env invs w w'"
    and "\<forall>(i, ob) \<in> set (waiting w). start_of env (invs ! i) = Suspended ob"
    and "\<forall>(i, r) \<in> set (finished w). \<exists>res. r = handler env (\<lambda>_. res) (inv_ref (invs ! i)) (inv_exp (invs ! i)) (inv_req (invs ! i))"
  shows "\<forall>(i, r) \<in> set (finished w'). \<exists>res. r = handler env (\<lambda>_. res) (inv_ref (invs ! i)) (inv_exp (invs ! i)) (inv_req (invs ! i))"
  using assms
proof cases
  case (run_to_end i r)
  then have "handler env (\<lambda>_. res) (inv_ref (invs ! i)) (inv_exp (invs ! i)) (inv_req (invs ! i)) = r" for res
    by (simp add: handler_split start_of_def)
  with run_to_end assms(3) show ?thesis by auto
next
  case (resume_answer i ob res)
  then have "handler env (\<lambda>_. res) (inv_ref (invs ! i)) (inv_exp (invs ! i)) (inv_req (invs ! i)) = after_fetch ob res"
    using assms(2) by (auto simp: handler_split start_of_def)
  then have "\<exists>res'. after_fetch ob res = handler env (\<lambda>_. res') (inv_ref (invs ! i)) (inv_exp (invs ! i)) (inv_req (invs ! i))"
    by metis
  with resume_answer assms(3) show ?thesis by auto
qed auto

lemma server_step_inv:
  assumes step: "server_step env invs w w'" and inv: "server_inv env invs w"
  shows "server_inv env invs w'"
proof -
  have o: "mset (owners w') = mset (owners w)" using step by (rule server_step_owners)
  then have "distinct (owners w') = distinct (owners w)" and "set (owners w') = set (owners w)"
    by (metis mset_eq_imp_distinct_iff, metis mset_eq_setD)
  moreover have "mset (wire w') = wire_owed w'"
    using server_step_wire [OF step] inv by (simp add: server_inv_def)
  moreover have "\<forall>(i, ob) \<in> set (waiting w'). start_of env (invs ! i) = Suspended ob"
    using server_step_waiting [OF step] inv by (simp add: server_inv_def)
  moreover have "\<forall>(i, r) \<in> set (finished w'). \<exists>res. r = handler env (\<lambda>_. res) (inv_ref (invs ! i)) (inv_exp (invs ! i)) (inv_req (invs ! i))"
    using server_step_finished [OF step] inv by (simp add: server_inv_def)
  ultimately show ?thesis using inv by (simp add: server_inv_def)
qed

lemma server_reach_inv: "server_reach env invs w \<Longrightarrow> server_inv env invs w"
  by (induction rule: server_reach.induct) (auto intro: server_inv_start server_step_inv)

subsection \<open>Properties of interleaved runs\<close>

lemma handler_calls_split:
  "calls (handler env fetch t1 t2 req) =
     (case handler_start env t1 t2 req of Finished r \<Rightarrow> [] | Suspended ob \<Rightarrow> [ob])"
  by (auto simp: handler_split dest: handler_start_finished_calls split: stage.split)

lemma handler_calls_token:
  "ob \<in> set (calls (handler env fetch t1 t2 req)) \<Longrightarrow> \<exists>tk p. env = Some tk \<and> tk \<noteq> [] \<and> ob = provider_request tk p"
proof -
  assume "ob \<in> set (calls (handler env fetch t1 t2 req))"
  then have "handler_start env t1 t2 req = Suspended ob" by (auto simp: handler_calls_split split: stage.splits)
  then show ?thesis by (rule handler_start_suspended)
qed

lemma finished_calls_length:
  assumes "\<forall>(i, r) \<in> set fs. \<exists>res. r = handler env (\<lambda>_. res) (inv_ref (invs ! i)) (inv_exp (invs ! i)) (inv_req (invs ! i))"
  shows "length (concat (map (calls \<circ> snd) fs)) \<le> length fs"
  using assms
proof (induction fs)
  case (Cons x fs)
  obtain i r where x: "x = (i, r)" by (cases x)
  with Cons.prems obtain res where "r = handler env (\<lambda>_. res) (inv_ref (invs ! i)) (inv_exp (invs ! i)) (inv_req (invs ! i))"
    by auto
  then have "length (calls r) \<le> 1" by (simp add: handler_calls_split split: stage.split)
  with Cons x show ?case by simp
qed simp

definition server_measure :: "world \<Rightarrow> nat" where
  "server_measure w = 2 * length (todo w) + length (waiting w)"

lemma length_remove1_mem: "x \<in> set xs \<Longrightarrow> Suc (length (remove1 x xs)) = length xs"
  using length_pos_if_in_set [of x xs] by (simp add: length_remove1)

lemma server_step_measure: "server_step env invs w w' \<Longrightarrow> server_measure w' < server_measure w"
proof (induction rule: server_step.induct)
  case (run_to_end i w r)
  then have "Suc (length (remove1 i (todo w))) = length (todo w)" by (simp add: length_remove1_mem)
  then show ?case by (simp add: server_measure_def)
next
  case (run_to_await i w ob)
  then have "Suc (length (remove1 i (todo w))) = length (todo w)" by (simp add: length_remove1_mem)
  then show ?case by (simp add: server_measure_def)
next
  case (resume_answer i ob w res)
  then have "Suc (length (remove1 (i, ob) (waiting w))) = length (waiting w)" by (simp add: length_remove1_mem)
  then show ?case by (simp add: server_measure_def)
qed

lemma server_progress:
  assumes "todo w \<noteq> [] \<or> waiting w \<noteq> []"
  shows "\<exists>w'. server_step env invs w w'"
proof (cases "todo w")
  case (Cons i rest)
  then have i: "i \<in> set (todo w)" by simp
  show ?thesis
  proof (cases "start_of env (invs ! i)")
    case (Finished r)
    with i show ?thesis by (blast intro: server_step.run_to_end)
  next
    case (Suspended ob)
    with i show ?thesis by (blast intro: server_step.run_to_await)
  qed
next
  case Nil
  with assms obtain i ob where "(i, ob) \<in> set (waiting w)" by (cases "waiting w") auto
  then show ?thesis by (blast intro: server_step.resume_answer)
qed

lemma server_completes:
  "server_reach env invs w \<Longrightarrow>
   \<exists>w'. (server_step env invs)\<^sup>*\<^sup>* w w' \<and> server_reach env invs w' \<and> todo w' = [] \<and> waiting w' = []"
proof (induction "server_measure w" arbitrary: w rule: less_induct)
  case less
  show ?case
  proof (cases "todo w = [] \<and> waiting w = []")
    case True
    with less.prems show ?thesis by blast
  next
    case False
    then obtain w1 where s: "server_step env invs w w1" using server_progress by blast
    then have "server_measure w1 < server_measure w" by (rule server_step_measure)
    moreover have "server_reach env invs w1" using less.prems s by (rule server_reach.step)
    ultimately obtain w' where "(server_step env invs)\<^sup>*\<^sup>* w1 w'" "server_reach env invs w'" "todo w' = []" "waiting w' = []"
      using less.hyps by blast
    with s show ?thesis by (blast intro: converse_rtranclp_into_rtranclp)
  qed
qed

text \<open>
  Interleaving does not change what an invocation does.  In every state
  the runtime can reach, each finished invocation's run (its response, log
  lines and outbound call) is the run of the sequential handler on its own
  request and clock readings, for the answer the provider gave it.
\<close>

lemma server_runs_independent:
  assumes "server_reach env invs w" and "(i, r) \<in> set (finished w)"
  shows "\<exists>res. r = handler env (\<lambda>_. res) (inv_ref (invs ! i)) (inv_exp (invs ! i)) (inv_req (invs ! i))"
  using server_reach_inv [OF assms(1)] assms(2) by (auto simp: server_inv_def)

text \<open>
  C21: in every reachable state, the requests sent to the provider are at most
  one per invocation, and each one carries the configured, non-empty token
  as its bearer credential.
\<close>

theorem server_wire_safe:
  assumes "server_reach env invs w"
  shows "length (wire w) \<le> length invs \<and>
         (\<forall>ob \<in> set (wire w). \<exists>tk p. env = Some tk \<and> tk \<noteq> [] \<and> ob = provider_request tk p)"
proof -
  have inv: "server_inv env invs w" using assms by (rule server_reach_inv)
  then have owed: "mset (wire w) = wire_owed w" by (simp add: server_inv_def)
  have "length (owners w) = length invs"
    using inv by (metis server_inv_def distinct_card atLeastLessThan_upt card_atLeastLessThan diff_zero)
  moreover have "length (wire w) = length (waiting w) + length (concat (map (calls \<circ> snd) (finished w)))"
    using owed by (metis size_mset wire_owed_def size_union length_map)
  moreover have "length (concat (map (calls \<circ> snd) (finished w))) \<le> length (finished w)"
    using inv by (intro finished_calls_length [of "finished w" env invs]) (simp add: server_inv_def)
  ultimately have len: "length (wire w) \<le> length invs" by (simp add: owners_def)
  have "ob \<in> set (wire w) \<Longrightarrow> \<exists>tk p. env = Some tk \<and> tk \<noteq> [] \<and> ob = provider_request tk p" for ob
  proof -
    assume "ob \<in> set (wire w)"
    then have "ob \<in># wire_owed w" using owed by (metis set_mset_mset)
    then have "ob \<in> snd ` set (waiting w) \<or> (\<exists>(i, r) \<in> set (finished w). ob \<in> set (calls r))"
      by (auto simp: wire_owed_def)
    then show ?thesis
    proof
      assume "ob \<in> snd ` set (waiting w)"
      then obtain i where "(i, ob) \<in> set (waiting w)" by force
      with inv have "start_of env (invs ! i) = Suspended ob" by (auto simp: server_inv_def)
      then show ?thesis unfolding start_of_def by (rule handler_start_suspended)
    next
      assume "\<exists>(i, r) \<in> set (finished w). ob \<in> set (calls r)"
      then obtain i r where "(i, r) \<in> set (finished w)" and ob: "ob \<in> set (calls r)" by blast
      with inv obtain res where "r = handler env (\<lambda>_. res) (inv_ref (invs ! i)) (inv_exp (invs ! i)) (inv_req (invs ! i))"
        by (auto simp: server_inv_def)
      with ob show ?thesis by (blast dest: handler_calls_token)
    qed
  qed
  with len show ?thesis by blast
qed

text \<open>
  Every reachable state can be completed: some schedule of the runtime
  finishes every invocation, each with a response or the uncaught exception
  of its own run.  No invocation can be starved by the others.
\<close>

lemma server_all_finish:
  assumes "server_reach env invs w"
  shows "\<exists>w'. (server_step env invs)\<^sup>*\<^sup>* w w' \<and> set (map fst (finished w')) = {0..<length invs}"
proof -
  obtain w' where "(server_step env invs)\<^sup>*\<^sup>* w w'" "server_reach env invs w'" "todo w' = []" "waiting w' = []"
    using server_completes [OF assms] by blast
  moreover from \<open>server_reach env invs w'\<close> have "server_inv env invs w'" by (rule server_reach_inv)
  ultimately show ?thesis by (auto simp: server_inv_def owners_def)
qed

text \<open>
  The interleaving terminates: there is no infinite sequence of steps, so
  every schedule of the runtime ends, after at most two steps per invocation.
\<close>

lemma server_step_terminates: "wf {(w', w). server_step env invs w w'}"
proof (rule wf_subset)
  show "wf (measure server_measure)" by simp
  show "{(w', w). server_step env invs w w'} \<subseteq> measure server_measure"
    by (auto dest: server_step_measure)
qed

theorem server_wire_safe_witness:
  "length [provider_request ''tok'' (order_json 0 JUndef ''1'' (Fin 100) (Fin 100) ''1970-01-01T01:00:00.000Z'')] \<le> 1 \<and>
   (\<exists>tk p. Some ''tok'' = Some tk \<and> tk \<noteq> [] \<and>
      provider_request ''tok'' (order_json 0 JUndef ''1'' (Fin 100) (Fin 100) ''1970-01-01T01:00:00.000Z'') = provider_request tk p)"
proof -
  let ?p = "order_json 0 JUndef ''1'' (Fin 100) (Fin 100) ''1970-01-01T01:00:00.000Z''"
  let ?invs = "[\<lparr>inv_req = \<lparr>req_method = ''POST'', req_body = JObj [(''valor'', JNum (Fin 1)), (''cpf'', JStr ''1'')]\<rparr>,
                 inv_ref = 0, inv_exp = 0\<rparr>]"
  let ?w0 = "start_world (length ?invs)"
  let ?w1 = "?w0\<lparr>todo := remove1 0 (todo ?w0), waiting := waiting ?w0 @ [(0, provider_request ''tok'' ?p)],
                 wire := wire ?w0 @ [provider_request ''tok'' ?p]\<rparr>"
  have b: "build_order 0 0 (JNum (Fin 1)) JUndef (JStr ''1'') = Inr ?p" by code_simp
  have "server_step (Some ''tok'') ?invs ?w0 ?w1"
    by (rule server_step.run_to_await)
       (simp_all add: start_world_def start_of_def handler_start_def start_post_def start_order_def
                      destructure_def get_field_def b)
  then have reach: "server_reach (Some ''tok'') ?invs ?w1" by (rule server_reach.step [OF server_reach.start])
  from server_wire_safe [OF reach] show ?thesis by (simp add: start_world_def)
qed

end
