(* ===== verification/IsoRead.thy ===== *)
theory IsoRead
  imports Order
begin

text \<open>
  Reading back what \<open>toISOString\<close> prints.  The provider receives the
  expiration date as text in ECMAScript's Date Time String Format (ECMA-262,
  21.4.1.32), here its full UTC form \<open>YYYY-MM-DDTHH:mm:ss.sssZ\<close> with the
  expanded years \<open>\<plusminus>YYYYYY\<close>: the reader checks the syntax and the
  ranges the standard requires (an out-of-range field makes the string
  invalid, as does the year \<open>-000000\<close>) and converts the fields with MakeDay,
  MakeTime and TimeClip.  It is a reference for the format, not code of the
  repository; the theorems show that the code's expiration date is a valid
  instance that denotes exactly the intended instant.
\<close>

definition digits_at :: "string \<Rightarrow> nat \<Rightarrow> nat \<Rightarrow> nat option" where
  "digits_at s i n =
     (let ds = take n (drop i s)
      in if length ds = n \<and> (\<forall>c \<in> set ds. is_dec_digit c) then Some (dec_val ds) else None)"

definition char_at :: "string \<Rightarrow> nat \<Rightarrow> char \<Rightarrow> bool" where
  "char_at s i c \<longleftrightarrow> i < length s \<and> s ! i = c"

text \<open>The year and the rest of the string after it.\<close>

definition read_year :: "string \<Rightarrow> (int \<times> string) option" where
  "read_year s =
     (case s of
        [] \<Rightarrow> None
      | c # rest \<Rightarrow>
          if c = CHR ''+'' \<or> c = CHR ''-'' then
            (case digits_at rest 0 6 of
               None \<Rightarrow> None
             | Some n \<Rightarrow> if c = CHR ''-'' \<and> n = 0 then None
                         else Some (if c = CHR ''-'' then - int n else int n, drop 6 rest))
          else map_option (\<lambda>n. (int n, drop 4 s)) (digits_at s 0 4))"

text \<open>\<open>-MM-DDTHH:mm:ss.sssZ\<close>: month, day, hours, minutes, seconds, milliseconds.\<close>

definition read_fields :: "string \<Rightarrow> (nat \<times> nat \<times> nat \<times> nat \<times> nat \<times> nat) option" where
  "read_fields r =
     (if length r = 20 \<and> char_at r 0 CHR ''-'' \<and> char_at r 3 CHR ''-'' \<and> char_at r 6 CHR ''T''
         \<and> char_at r 9 CHR '':'' \<and> char_at r 12 CHR '':'' \<and> char_at r 15 CHR ''.'' \<and> char_at r 19 CHR ''Z''
      then (case (digits_at r 1 2, digits_at r 4 2, digits_at r 7 2, digits_at r 10 2, digits_at r 13 2, digits_at r 16 3) of
              (Some mo, Some da, Some h, Some mi, Some se, Some ms) \<Rightarrow> Some (mo, da, h, mi, se, ms)
            | _ \<Rightarrow> None)
      else None)"

definition month_length :: "int \<Rightarrow> nat \<Rightarrow> int" where
  "month_length y m = month_start (in_leap_year y) (Suc m) - month_start (in_leap_year y) m"

definition read_iso_utc :: "string \<Rightarrow> millis option" where
  "read_iso_utc s =
     (case read_year s of
        None \<Rightarrow> None
      | Some (y, r) \<Rightarrow>
          (case read_fields r of
             None \<Rightarrow> None
           | Some (mo, da, h, mi, se, ms) \<Rightarrow>
               let tv = make_time_value \<lparr>df_year = y, df_month = mo - 1, df_date = int da, df_hours = int h,
                                         df_minutes = int mi, df_seconds = int se, df_millis = int ms\<rparr>
               in if 1 \<le> mo \<and> mo \<le> 12 \<and> 1 \<le> da \<and> int da \<le> month_length y (mo - 1)
                     \<and> h \<le> 23 \<and> mi \<le> 59 \<and> se \<le> 59 \<and> \<bar>tv\<bar> \<le> max_time
                  then Some tv else None))"

subsection \<open>Reading back the printed fields\<close>

lemma day_of_bound: "\<bar>t\<bar> \<le> max_time \<Longrightarrow> \<bar>day_of t\<bar> \<le> 100000000"
proof -
  assume "\<bar>t\<bar> \<le> max_time"
  then have t: "- 8640000000000000 \<le> t" "t \<le> 8640000000000000" by (simp_all add: max_time_def)
  have "t div 86400000 \<le> 8640000000000000 div 86400000" using t(2) by (rule zdiv_mono1) simp
  moreover have "(- 8640000000000000) div 86400000 \<le> t div 86400000" using t(1) by (rule zdiv_mono1) simp
  ultimately show ?thesis by (simp add: day_of_def ms_per_day_def)
qed

lemma year_from_day_bound:
  assumes "\<bar>d\<bar> \<le> 100000000"
  shows "\<bar>year_from_day d\<bar> < 1000000"
proof -
  let ?y = "year_from_day d"
  have b: "day_from_year ?y \<le> d" "d < day_from_year (?y + 1)" using year_from_day_bracket [of d] by simp_all
  have hi: "100000000 < day_from_year 1000000" and lo: "day_from_year (-999999) < -100000000"
    by (simp_all add: day_from_year_def)
  have "\<not> 1000000 \<le> ?y"
  proof
    assume "1000000 \<le> ?y"
    then have "day_from_year 1000000 \<le> day_from_year ?y" by (rule day_from_year_mono)
    with b(1) hi assms show False by linarith
  qed
  moreover have "\<not> ?y \<le> -1000000"
  proof
    assume "?y \<le> -1000000"
    then have "day_from_year (?y + 1) \<le> day_from_year (-999999)" by (intro day_from_year_mono) simp
    with b(2) lo assms show False by linarith
  qed
  ultimately show ?thesis by simp
qed

lemma digits_at_pad:
  assumes "n < 10 ^ w" and "0 < w"
  shows "digits_at (pad_dec w n @ r) 0 w = Some n"
  using assms by (simp add: digits_at_def length_pad_dec pad_dec_digits)

lemma read_year_iso:
  assumes "\<bar>y\<bar> < 1000000"
  shows "read_year (iso_year y @ r) = Some (y, r)"
proof (cases "0 \<le> y \<and> y \<le> 9999")
  case True
  then have n: "nat y < 10 ^ 4" by (simp add: nat_less_iff)
  have len: "length (pad_dec 4 (nat y)) = 4" using n by (simp add: length_pad_dec)
  obtain c cs where pc: "pad_dec 4 (nat y) = c # cs" using len by (cases "pad_dec 4 (nat y)") auto
  have "is_dec_digit c" using pad_dec_digits [of 4 "nat y"] by (simp add: pc)
  then have "c \<noteq> CHR ''+'' \<and> c \<noteq> CHR ''-''" by (simp add: digit_not_sign)
  moreover have "digits_at (c # cs @ r) 0 4 = Some (nat y)" using digits_at_pad [OF n, of r] by (simp add: pc)
  moreover have "drop 4 (c # cs @ r) = r" using len by (simp add: pc)
  ultimately show ?thesis using True by (simp add: iso_year_def read_year_def pc)
next
  case False
  then have n: "nat \<bar>y\<bar> < 10 ^ 6" "nat \<bar>y\<bar> \<noteq> 0" using assms by auto
  have len: "length (pad_dec 6 (nat \<bar>y\<bar>)) = 6" using n by (simp add: length_pad_dec)
  have "digits_at (pad_dec 6 (nat \<bar>y\<bar>) @ r) 0 6 = Some (nat \<bar>y\<bar>)" using n(1) by (rule digits_at_pad) simp
  with False n(2) len show ?thesis by (auto simp: iso_year_def read_year_def)
qed

lemma length_2_cases: "length xs = 2 \<Longrightarrow> \<exists>a b. xs = [a, b]"
  by (auto simp: numeral_2_eq_2 length_Suc_conv)

lemma length_3_cases: "length xs = 3 \<Longrightarrow> \<exists>a b c. xs = [a, b, c]"
  by (auto simp: numeral_3_eq_3 length_Suc_conv)

lemma read_fields_pad:
  assumes "length p1 = 2" "length p2 = 2" "length p3 = 2" "length p4 = 2" "length p5 = 2" "length p6 = 3"
    and "\<forall>c \<in> set (p1 @ p2 @ p3 @ p4 @ p5 @ p6). is_dec_digit c"
  shows "read_fields (''-'' @ p1 @ ''-'' @ p2 @ ''T'' @ p3 @ '':'' @ p4 @ '':'' @ p5 @ ''.'' @ p6 @ ''Z'') =
           Some (dec_val p1, dec_val p2, dec_val p3, dec_val p4, dec_val p5, dec_val p6)"
proof -
  obtain a1 b1 where 1: "p1 = [a1, b1]" using length_2_cases [OF assms(1)] by blast
  obtain a2 b2 where 2: "p2 = [a2, b2]" using length_2_cases [OF assms(2)] by blast
  obtain a3 b3 where 3: "p3 = [a3, b3]" using length_2_cases [OF assms(3)] by blast
  obtain a4 b4 where 4: "p4 = [a4, b4]" using length_2_cases [OF assms(4)] by blast
  obtain a5 b5 where 5: "p5 = [a5, b5]" using length_2_cases [OF assms(5)] by blast
  obtain a6 b6 c6 where 6: "p6 = [a6, b6, c6]" using length_3_cases [OF assms(6)] by blast
  show ?thesis
    using assms(7) by (simp add: 1 2 3 4 5 6 read_fields_def digits_at_def char_at_def)
qed

lemma df_year_of: "df_year (date_fields_of t) = year_from_day (day_of t)"
  by (simp add: date_fields_of_def Let_def)

lemma iso_field_lengths:
  fixes t :: millis
  defines "f \<equiv> date_fields_of t"
  shows "length (pad_dec 2 (df_month f + 1)) = 2" "length (pad_dec 2 (nat (df_date f))) = 2"
    "length (pad_dec 2 (nat (df_hours f))) = 2" "length (pad_dec 2 (nat (df_minutes f))) = 2"
    "length (pad_dec 2 (nat (df_seconds f))) = 2" "length (pad_dec 3 (nat (df_millis f))) = 3"
proof -
  have v: "df_month f \<le> 11" "1 \<le> df_date f" "df_date f \<le> month_length (df_year f) (df_month f)"
    "df_hours f < 24" "df_minutes f < 60" "df_seconds f < 60" "df_millis f < 1000"
    using date_fields_valid [of t] by (simp_all add: f_def month_length_def)
  have "month_length (df_year f) (df_month f) \<le> 31"
    unfolding month_length_def using v(1) by (rule month_length_le)
  with v have n: "df_month f + 1 < 10 ^ 2" "nat (df_date f) < 10 ^ 2" "nat (df_hours f) < 10 ^ 2"
    "nat (df_minutes f) < 10 ^ 2" "nat (df_seconds f) < 10 ^ 2" "nat (df_millis f) < 10 ^ 3"
    by (simp_all add: nat_less_iff)
  then show "length (pad_dec 2 (df_month f + 1)) = 2" "length (pad_dec 2 (nat (df_date f))) = 2"
    "length (pad_dec 2 (nat (df_hours f))) = 2" "length (pad_dec 2 (nat (df_minutes f))) = 2"
    "length (pad_dec 2 (nat (df_seconds f))) = 2" "length (pad_dec 3 (nat (df_millis f))) = 3"
    by (auto intro: length_pad_dec)
qed

lemma iso_format_reads_back:
  assumes "\<bar>t\<bar> \<le> max_time"
  shows "read_iso_utc (iso_format (date_fields_of t)) = Some t"
proof -
  let ?f = "date_fields_of t"
  let ?rest = "''-'' @ pad_dec 2 (df_month ?f + 1) @ ''-'' @ pad_dec 2 (nat (df_date ?f))
     @ ''T'' @ pad_dec 2 (nat (df_hours ?f)) @ '':'' @ pad_dec 2 (nat (df_minutes ?f))
     @ '':'' @ pad_dec 2 (nat (df_seconds ?f)) @ ''.'' @ pad_dec 3 (nat (df_millis ?f)) @ ''Z''"
  have v: "df_month ?f \<le> 11" "1 \<le> df_date ?f" "df_date ?f \<le> month_length (df_year ?f) (df_month ?f)"
    "0 \<le> df_hours ?f" "df_hours ?f < 24" "0 \<le> df_minutes ?f" "df_minutes ?f < 60"
    "0 \<le> df_seconds ?f" "df_seconds ?f < 60" "0 \<le> df_millis ?f" "df_millis ?f < 1000"
    using date_fields_valid [of t] by (simp_all add: month_length_def)
  have yb: "\<bar>df_year ?f\<bar> < 1000000"
    using year_from_day_bound [OF day_of_bound [OF assms]] by (simp add: df_year_of)
  have ry: "read_year (iso_format ?f) = Some (df_year ?f, ?rest)"
    using read_year_iso [OF yb, of ?rest] by (simp add: iso_format_def)
  have rf: "read_fields ?rest = Some (df_month ?f + 1, nat (df_date ?f), nat (df_hours ?f),
                                      nat (df_minutes ?f), nat (df_seconds ?f), nat (df_millis ?f))"
    using read_fields_pad [OF iso_field_lengths [of t]] pad_dec_digits
    by (simp only: dec_val_pad_dec set_append) blast
  have rec: "\<lparr>df_year = df_year ?f, df_month = df_month ?f, df_date = df_date ?f,
              df_hours = df_hours ?f, df_minutes = df_minutes ?f,
              df_seconds = df_seconds ?f, df_millis = df_millis ?f\<rparr> = ?f"
    by simp
  have tv: "make_time_value ?f = t" using make_time_value_day [of t] day_time_split [of t] by simp
  show ?thesis
    using v assms
    by (simp only: read_iso_utc_def ry rf option.case prod.case) (simp add: rec tv Let_def nat_le_iff le_nat_iff)
qed

text \<open>
  What \<open>toISOString\<close> prints is a valid instance of the Date Time String
  Format that denotes exactly the time value printed: reading the string back
  gives the same instant, for every time value the method accepts.
\<close>

lemma to_iso_string_reads_back:
  assumes "to_iso_string t = Inr s"
  shows "read_iso_utc s = Some t"
proof -
  from assms have "\<bar>t\<bar> \<le> max_time" and "s = iso_format (date_fields_of t)"
    by (auto simp: to_iso_string_def split: if_splits)
  then show ?thesis by (simp add: iso_format_reads_back)
qed

lemma year_from_day_4_digits:
  assumes "0 \<le> d" and "d < 2932897"
  shows "0 \<le> year_from_day d \<and> year_from_day d \<le> 9999"
proof -
  let ?y = "year_from_day d"
  have b: "day_from_year ?y \<le> d" "d < day_from_year (?y + 1)" using year_from_day_bracket [of d] by simp_all
  have hi: "day_from_year 10000 = 2932897" and lo: "day_from_year 0 = -719528"
    by (simp_all add: day_from_year_def)
  have "\<not> 10000 \<le> ?y"
  proof
    assume "10000 \<le> ?y"
    then have "day_from_year 10000 \<le> day_from_year ?y" by (rule day_from_year_mono)
    with b(1) hi assms(2) show False by linarith
  qed
  moreover have "\<not> ?y < 0"
  proof
    assume "?y < 0"
    then have "day_from_year (?y + 1) \<le> day_from_year 0" by (intro day_from_year_mono) simp
    with b(2) lo assms(1) show False by linarith
  qed
  ultimately show ?thesis by simp
qed

text \<open>
  From 1970 to the end of year 9999 the expiration date always exists
  (no RangeError) and is the 24-character form \<open>YYYY-MM-DDTHH:mm:ss.sssZ\<close>.
\<close>

lemma to_iso_string_24:
  assumes "0 \<le> t" and "t < 253402300800000"
  shows "\<exists>s. to_iso_string t = Inr s \<and> length s = 24"
proof -
  let ?f = "date_fields_of t"
  have "t div 86400000 \<le> 253402300799999 div 86400000" using assms(2) by (intro zdiv_mono1) simp_all
  then have d: "0 \<le> day_of t" "day_of t < 2932897"
    using assms(1) by (simp_all add: day_of_def ms_per_day_def)
  then have y: "0 \<le> df_year ?f \<and> df_year ?f \<le> 9999"
    using year_from_day_4_digits [OF d] by (simp add: df_year_of)
  then have "length (iso_year (df_year ?f)) = 4"
    by (simp add: iso_year_def length_pad_dec nat_less_iff)
  moreover have "\<bar>t\<bar> \<le> max_time" using assms by (simp add: max_time_def)
  ultimately show ?thesis
    using iso_field_lengths [of t] by (simp add: to_iso_string_def iso_format_def)
qed

text \<open>
  C22: the order the handler builds carries the same amount in its line item
  and its QR-code block, and an expiration date that denotes exactly one hour
  (3 600 000 ms) after the second reading of the clock.
\<close>

theorem build_order_expiry:
  assumes "build_order t1 t2 v n c = Inr p"
  shows "\<exists>tax a x. p = order_json t1 n tax a a x \<and> read_iso_utc x = Some (t2 + 3600 * 1000)"
proof -
  from assms obtain tax a x where tx: "tax_id_of c = Inr tax" and am: "amount_cents64 v = Inr a"
    and ex: "expiration_date t2 = Inr x" and p: "p = order_json t1 n tax a a x"
    by (auto simp: build_order_def ebind_eq_Inr)
  from ex have "\<bar>t2 + 3600 * 1000\<bar> \<le> max_time" and "x = iso_format (date_fields_of (t2 + 3600 * 1000))"
    by (auto simp: expiration_date_def to_iso_string_def split: if_splits)
  then have "read_iso_utc x = Some (t2 + 3600 * 1000)" by (simp add: iso_format_reads_back)
  with p show ?thesis by blast
qed

theorem build_order_expiry_witness:
  "\<exists>tax a x. order_json 0 JUndef ''1'' (Fin 100) (Fin 100) ''1970-01-01T01:00:00.000Z'' = order_json 0 JUndef tax a a x
     \<and> read_iso_utc x = Some (0 + 3600 * 1000)"
proof -
  have "build_order 0 0 (JNum (Fin 1)) JUndef (JStr ''1'') =
          Inr (order_json 0 JUndef ''1'' (Fin 100) (Fin 100) ''1970-01-01T01:00:00.000Z'')"
    by code_simp
  then show ?thesis by (rule build_order_expiry)
qed

end
