(* ===== verification/JsonText.thy ===== *)
theory JsonText
  imports Handler
begin

text \<open>
  JSON text.  The handler sends \<open>JSON.stringify(pedido)\<close> as the body of the
  provider request (src/api/gerar-pix.js, line 66) and logs
  \<open>JSON.stringify(data)\<close> when the provider rejects the order (line 88).
  \<open>json_text\<close> is ECMAScript's JSON.stringify without indentation
  (SerializeJSONProperty, SerializeJSONObject, SerializeJSONArray,
  QuoteJSONString, ECMA-262 25.5.2); numbers are printed for the integers of
  magnitude at most \<open>2\<^sup>5\<^sup>3\<close>, for which Number::toString is the decimal numeral
  (the text of other finite numbers depends on binary64 rounding and is not
  modelled: \<open>json_text\<close> is then \<open>None\<close>, as it is for a top-level
  \<open>undefined\<close>, where JSON.stringify returns no string).  \<open>log_text\<close> is the
  line \<open>console.error\<close> prints for a log entry.  \<open>parse_json\<close> is a
  reference parser of RFC 8259 JSON text, the receiver's side, with string
  escapes of 8-bit code units; it returns the members of an object in text
  order.  It runs on fuel, and the length of the text is enough fuel: every
  nested value of a printed text is read with fuel at most its own length.

  The lemmas show, bottom up, that each printed piece reads back
  (\<open>read_chars_quoted\<close>, \<open>read_number_int\<close>, \<open>read_elems_join\<close>,
  \<open>read_members_join\<close>, \<open>json_text_reads\<close>), whence the round trip
  (\<open>json_text_roundtrip\<close>), that the text depends only on the serialised
  value (\<open>json_text_serialize\<close>), and the texts of the rejection: its log
  line and its reply carry the same text of the provider's reply (C25).
\<close>

subsection \<open>JSON.stringify\<close>

definition hex_digit :: "nat \<Rightarrow> char" where
  "hex_digit d = (if d < 10 then digit_char d else char_of (87 + d))"

text \<open>QuoteJSONString, one code unit at a time.\<close>

definition json_escape :: "char \<Rightarrow> string" where
  "json_escape c =
     (let n = (of_char c :: nat) in
      if n = 0x22 then [CHR 0x5C, CHR 0x22]
      else if n = 0x5C then [CHR 0x5C, CHR 0x5C]
      else if n = 8 then [CHR 0x5C, CHR ''b'']
      else if n = 9 then [CHR 0x5C, CHR ''t'']
      else if n = 10 then [CHR 0x5C, CHR ''n'']
      else if n = 12 then [CHR 0x5C, CHR ''f'']
      else if n = 13 then [CHR 0x5C, CHR ''r'']
      else if n < 32 then [CHR 0x5C, CHR ''u'', CHR ''0'', CHR ''0'', hex_digit (n div 16), hex_digit (n mod 16)]
      else [c])"

definition json_quote :: "string \<Rightarrow> string" where
  "json_quote s = CHR 0x22 # concat (map json_escape s) @ [CHR 0x22]"

fun join_comma :: "string list \<Rightarrow> string" where
  "join_comma [] = []"
| "join_comma [s] = s"
| "join_comma (s # t # ss) = s @ CHR '','' # join_comma (t # ss)"

text \<open>The integers Number::toString prints as their decimal numeral, exactly.\<close>

definition safe_integer :: "rat \<Rightarrow> int option" where
  "safe_integer q = (let (a, b) = quotient_of q in if b = 1 \<and> \<bar>a\<bar> \<le> 2 ^ 53 then Some a else None)"

fun json_text :: "jval \<Rightarrow> string option" where
  "json_text JUndef = None"
| "json_text JNull = Some ''null''"
| "json_text (JBool b) = Some (if b then ''true'' else ''false'')"
| "json_text (JNum n) = (case n of Fin q \<Rightarrow> map_option int_to_dec (safe_integer q) | _ \<Rightarrow> Some ''null'')"
| "json_text (JStr s) = Some (json_quote s)"
| "json_text (JArr xs) =
     map_option (\<lambda>ts. ''['' @ join_comma ts @ '']'')
       (those (map (\<lambda>x. if x = JUndef then Some ''null'' else json_text x) xs))"
| "json_text (JObj kvs) =
     map_option (\<lambda>ts. ''{'' @ join_comma ts @ ''}'')
       (those (map (\<lambda>kv. map_option (\<lambda>t. json_quote (fst kv) @ '':'' @ t) (json_text (snd kv)))
                   (filter (\<lambda>kv. snd kv \<noteq> JUndef) kvs)))"

subsection \<open>A reference parser (RFC 8259)\<close>

definition json_ws :: "char \<Rightarrow> bool" where
  "json_ws c \<longleftrightarrow> (of_char c :: nat) \<in> {9, 10, 13, 32}"

definition skip_ws :: "string \<Rightarrow> string" where
  "skip_ws s = dropWhile json_ws s"

definition hex_val :: "char \<Rightarrow> nat option" where
  "hex_val c = radix_digit 16 c"

definition simple_escape :: "char \<Rightarrow> char option" where
  "simple_escape e =
     (if e = CHR 0x22 \<or> e = CHR 0x5C \<or> e = CHR ''/'' then Some e
      else if e = CHR ''b'' then Some (CHR 0x08) else if e = CHR ''f'' then Some (CHR 0x0C)
      else if e = CHR ''n'' then Some (CHR 0x0A) else if e = CHR ''r'' then Some (CHR 0x0D)
      else if e = CHR ''t'' then Some (CHR 0x09) else None)"

text \<open>\<open>\uXXXX\<close> for the code units the model represents (below 256).\<close>

definition unicode_unit :: "char \<Rightarrow> char \<Rightarrow> char \<Rightarrow> char \<Rightarrow> char option" where
  "unicode_unit h1 h2 h3 h4 =
     (case (hex_val h1, hex_val h2, hex_val h3, hex_val h4) of
        (Some a, Some b, Some c, Some d) \<Rightarrow>
          let v = 4096 * a + 256 * b + 16 * c + d in if v < 256 then Some (char_of v) else None
      | _ \<Rightarrow> None)"

definition cons_fst :: "'a \<Rightarrow> ('a list \<times> 'b) option \<Rightarrow> ('a list \<times> 'b) option" where
  "cons_fst x r = map_option (\<lambda>(xs, rest). (x # xs, rest)) r"

text \<open>The characters of a string after its opening quote, up to the closing quote.\<close>

fun read_chars :: "string \<Rightarrow> (string \<times> string) option" where
  "read_chars [] = None"
| "read_chars (c # cs) =
     (if c = CHR 0x22 then Some ([], cs)
      else if c = CHR 0x5C then
        (case cs of
           [] \<Rightarrow> None
         | e # rest \<Rightarrow>
             (case simple_escape e of
                Some d \<Rightarrow> cons_fst d (read_chars rest)
              | None \<Rightarrow>
                  if e \<noteq> CHR ''u'' then None
                  else (case rest of
                          h1 # h2 # h3 # h4 # rest' \<Rightarrow>
                            (case unicode_unit h1 h2 h3 h4 of
                               Some d \<Rightarrow> cons_fst d (read_chars rest')
                             | None \<Rightarrow> None)
                        | _ \<Rightarrow> None)))
      else if (of_char c :: nat) < 32 then None
      else cons_fst c (read_chars cs))"

definition read_exp :: "string \<Rightarrow> (int \<times> string) option" where
  "read_exp r =
     (if r \<noteq> [] \<and> (hd r = CHR ''e'' \<or> hd r = CHR ''E'') then
        let t = tl r;
            (sg, t') = (if t \<noteq> [] \<and> hd t = CHR ''-'' then (-1, tl t)
                        else if t \<noteq> [] \<and> hd t = CHR ''+'' then (1, tl t) else (1, t));
            ds = takeWhile is_dec_digit t'
        in if ds = [] then None else Some (sg * int (dec_val ds), dropWhile is_dec_digit t')
      else Some (0, r))"

definition read_number :: "string \<Rightarrow> (rat \<times> string) option" where
  "read_number s =
     (let (sg, s1) = (if s \<noteq> [] \<and> hd s = CHR ''-'' then (-1 :: rat, tl s) else (1, s));
          ip = takeWhile is_dec_digit s1;
          r1 = dropWhile is_dec_digit s1;
          frac = (r1 \<noteq> [] \<and> hd r1 = CHR ''.'');
          fp = (if frac then takeWhile is_dec_digit (tl r1) else []);
          r2 = (if frac then dropWhile is_dec_digit (tl r1) else r1)
      in if ip = [] \<or> (hd ip = CHR ''0'' \<and> tl ip \<noteq> []) \<or> (frac \<and> fp = []) then None
         else case read_exp r2 of
                None \<Rightarrow> None
              | Some (e, r3) \<Rightarrow>
                  let m = sg * of_nat (dec_val (ip @ fp)); x = e - int (length fp)
                  in Some (if 0 \<le> x then m * 10 ^ nat x else m / 10 ^ nat (- x), r3))"

fun read_value :: "nat \<Rightarrow> string \<Rightarrow> (jval \<times> string) option"
and read_elems :: "nat \<Rightarrow> string \<Rightarrow> (jval list \<times> string) option"
and read_members :: "nat \<Rightarrow> string \<Rightarrow> ((string \<times> jval) list \<times> string) option" where
  "read_value 0 s = None"
| "read_value (Suc n) s =
   (case s of
     [] \<Rightarrow> None
   | c # cs \<Rightarrow>
     (if c = CHR ''n'' then (if take 3 cs = ''ull'' then Some (JNull, drop 3 cs) else None)
      else if c = CHR ''t'' then (if take 3 cs = ''rue'' then Some (JBool True, drop 3 cs) else None)
      else if c = CHR ''f'' then (if take 4 cs = ''alse'' then Some (JBool False, drop 4 cs) else None)
      else if c = CHR 0x22 then map_option (\<lambda>(t, r). (JStr t, r)) (read_chars cs)
      else if c = CHR ''['' then
        (if skip_ws cs \<noteq> [] \<and> hd (skip_ws cs) = CHR '']'' then Some (JArr [], tl (skip_ws cs))
         else map_option (\<lambda>(xs, r). (JArr xs, r)) (read_elems n (skip_ws cs)))
      else if c = CHR ''{'' then
        (if skip_ws cs \<noteq> [] \<and> hd (skip_ws cs) = CHR ''}'' then Some (JObj [], tl (skip_ws cs))
         else map_option (\<lambda>(kvs, r). (JObj kvs, r)) (read_members n (skip_ws cs)))
      else map_option (\<lambda>(q, r). (JNum (Fin q), r)) (read_number (c # cs))))"
| "read_elems 0 s = None"
| "read_elems (Suc n) s =
     (case read_value n s of
        None \<Rightarrow> None
      | Some (v, r) \<Rightarrow>
          if skip_ws r \<noteq> [] \<and> hd (skip_ws r) = CHR '','' then cons_fst v (read_elems n (skip_ws (tl (skip_ws r))))
          else if skip_ws r \<noteq> [] \<and> hd (skip_ws r) = CHR '']'' then Some ([v], tl (skip_ws r))
          else None)"
| "read_members 0 s = None"
| "read_members (Suc n) s =
   (case s of
     [] \<Rightarrow> None
   | c # cs \<Rightarrow>
     (if c \<noteq> CHR 0x22 then None
      else case read_chars cs of
             None \<Rightarrow> None
           | Some (k, r) \<Rightarrow>
               if skip_ws r = [] \<or> hd (skip_ws r) \<noteq> CHR '':'' then None
               else case read_value n (skip_ws (tl (skip_ws r))) of
                      None \<Rightarrow> None
                    | Some (v, r2) \<Rightarrow>
                        if skip_ws r2 \<noteq> [] \<and> hd (skip_ws r2) = CHR '','' then
                          cons_fst (k, v) (read_members n (skip_ws (tl (skip_ws r2))))
                        else if skip_ws r2 \<noteq> [] \<and> hd (skip_ws r2) = CHR ''}'' then Some ([(k, v)], tl (skip_ws r2))
                        else None))"

definition parse_json :: "string \<Rightarrow> jval option" where
  "parse_json s =
     (case read_value (length s) (skip_ws s) of
        Some (v, r) \<Rightarrow> if skip_ws r = [] then Some v else None
      | None \<Rightarrow> None)"

subsection \<open>The log lines\<close>

text \<open>
  The text \<open>console.error\<close> writes for a log entry, without its newline: its
  arguments joined by a space, strings as they are.  Line 21 logs a constant,
  line 88 the label and \<open>JSON.stringify(data)\<close>; line 93 prints the caught
  error with \<open>util.inspect\<close>, its stack trace, which depends on the runtime
  and is not modelled (\<open>None\<close>).
\<close>

definition log_text :: "log_entry \<Rightarrow> string option" where
  "log_text e =
     (case e of
        LogTokenMissing \<Rightarrow> Some (''Erro: Token PAGBANK_TOKEN n'' @ [CHR 0xE3] @ ''o encontrado na Vercel'')
      | LogProviderRejected d \<Rightarrow> map_option (\<lambda>t. ''Erro PagBank: '' @ t) (json_text d)
      | LogInternal _ \<Rightarrow> None)"

subsection \<open>Vocabulary of the round trip\<close>

text \<open>What may follow a value in a text: its end, a comma, a closing bracket or brace.\<close>

definition json_delim :: "string \<Rightarrow> bool" where
  "json_delim r \<longleftrightarrow> r = [] \<or> hd r \<in> {CHR '','', CHR '']'', CHR ''}''}"

text \<open>The values whose text \<open>json_text\<close> prints in full: no \<open>undefined\<close>, only safe integers.\<close>

fun printable :: "jval \<Rightarrow> bool" where
  "printable JUndef = False"
| "printable (JNum n) = (case n of Fin q \<Rightarrow> safe_integer q \<noteq> None | _ \<Rightarrow> False)"
| "printable (JArr xs) = list_all printable xs"
| "printable (JObj kvs) = list_all (\<lambda>kv. printable (snd kv)) kvs"
| "printable _ = True"

text \<open>\<open>t\<close> reads back as \<open>v\<close> before any delimiter, given as much fuel as its length.\<close>

abbreviation reads_back :: "string \<Rightarrow> jval \<Rightarrow> bool" where
  "reads_back t v \<equiv> \<forall>n r. length t \<le> n \<longrightarrow> json_delim r \<longrightarrow> read_value n (t @ r) = Some (v, r)"

subsection \<open>Strings: QuoteJSONString reads back\<close>

lemma hex_val_digit: "d < 16 \<Longrightarrow> hex_val (hex_digit d) = Some d"
  by (cases "d < 10") (simp_all add: hex_val_def hex_digit_def radix_digit_def digit_char_def Let_def)

lemma hex_val_zero [simp]: "hex_val CHR ''0'' = Some 0"
  by (simp add: hex_val_def radix_digit_def)

lemma escape_chars:
  "char_of (34::nat) = CHR 0x22" "char_of (92::nat) = CHR 0x5C" "char_of (8::nat) = CHR 0x08"
  "char_of (9::nat) = CHR 0x09" "char_of (10::nat) = CHR 0x0A" "char_of (12::nat) = CHR 0x0C"
  "char_of (13::nat) = CHR 0x0D"
  by (simp_all add: char_of_def bit_0)

lemma read_chars_escape:
  "read_chars (json_escape c @ rest) = cons_fst c (read_chars rest)"
proof -
  define n where "n = (of_char c :: nat)"
  have c: "c = char_of n" and n: "n < 256" by (simp_all add: n_def)
  consider "n = 0x22" | "n = 0x5C" | "n = 8" | "n = 9" | "n = 10" | "n = 12" | "n = 13"
    | "n < 32" "n \<noteq> 8" "n \<noteq> 9" "n \<noteq> 10" "n \<noteq> 12" "n \<noteq> 13"
    | "32 \<le> n" "n \<noteq> 0x22" "n \<noteq> 0x5C" by linarith
  then show ?thesis
  proof cases
    case 8
    have "n div 16 < 16" "n mod 16 < 16" using 8 by simp_all
    then have "unicode_unit CHR ''0'' CHR ''0'' (hex_digit (n div 16)) (hex_digit (n mod 16)) = Some c"
      using 8 by (simp add: unicode_unit_def hex_val_digit c)
    with 8 show ?thesis by (simp add: json_escape_def Let_def n_def [symmetric] simple_escape_def)
  next
    case 9
    then have "c \<noteq> CHR 0x22" "c \<noteq> CHR 0x5C" "\<not> (of_char c :: nat) < 32" unfolding n_def by auto
    with 9 show ?thesis by (simp add: json_escape_def Let_def n_def [symmetric])
  qed (simp_all add: json_escape_def Let_def n_def [symmetric] simple_escape_def c escape_chars)
qed

lemma read_chars_quoted:
  "read_chars (concat (map json_escape s) @ CHR 0x22 # r) = Some (s, r)"
  by (induction s) (simp_all add: read_chars_escape cons_fst_def)

subsection \<open>Numbers: the decimal numeral of an integer reads back\<close>

lemma json_delim_not_digit: "json_delim r \<Longrightarrow> takeWhile is_dec_digit r = [] \<and> dropWhile is_dec_digit r = r"
  by (cases r) (auto simp: json_delim_def is_dec_digit_def)

lemma read_exp_delim: "json_delim r \<Longrightarrow> read_exp r = Some (0, r)"
  by (auto simp: json_delim_def read_exp_def)

lemma nat_to_dec_no_leading_zero: "\<not> (hd (nat_to_dec m) = CHR ''0'' \<and> tl (nat_to_dec m) \<noteq> [])"
proof (cases "m = 0")
  case True
  then show ?thesis by (simp add: nat_to_dec.simps [of 0])
next
  case False
  then show ?thesis by (simp add: nat_to_dec_hd)
qed

lemma json_delim_cases:
  assumes "json_delim r"
  obtains "r = []" | c r' where "r = c # r'" "c = CHR '','' \<or> c = CHR '']'' \<or> c = CHR ''}''"
  using assms by (cases r) (auto simp: json_delim_def)

lemma read_number_digits:
  assumes ds: "ds \<noteq> []" "\<forall>c \<in> set ds. is_dec_digit c" "\<not> (hd ds = CHR ''0'' \<and> tl ds \<noteq> [])"
    and r: "json_delim r"
  shows "read_number (ds @ r) = Some (of_nat (dec_val ds), r) \<and>
         read_number (CHR ''-'' # ds @ r) = Some (- of_nat (dec_val ds), r)"
proof -
  have tw: "takeWhile is_dec_digit (ds @ r) = ds" and dw: "dropWhile is_dec_digit (ds @ r) = r"
    using ds(2) json_delim_not_digit [OF r] by (simp_all add: takeWhile_append2 dropWhile_append2)
  have h: "hd (ds @ r) \<noteq> CHR ''-''"
    using ds(1,2) digit_not_sign by (simp add: hd_append)
  from r show ?thesis
  proof (cases rule: json_delim_cases)
    case 1
    have tw0: "takeWhile is_dec_digit ds = ds" and dw0: "dropWhile is_dec_digit ds = []"
      using ds(2) by simp_all
    show ?thesis using 1 ds h by (simp add: read_number_def read_exp_def tw0 dw0)
  next
    case (2 c r')
    then show ?thesis using ds tw dw h by (auto simp: read_number_def read_exp_def)
  qed
qed

lemma read_number_int: "json_delim r \<Longrightarrow> read_number (int_to_dec k @ r) = Some (of_int k, r)"
  using read_number_digits [OF nat_to_dec_ne nat_to_dec_digits nat_to_dec_no_leading_zero, of r "nat \<bar>k\<bar>"]
  by (auto simp: int_to_dec_def dec_val_nat_to_dec)

lemma safe_integer_Some: "safe_integer q = Some a \<Longrightarrow> q = of_int a"
  by (auto simp: safe_integer_def split: prod.splits if_splits dest: quotient_of_div)

lemma safe_integer_of_int: "\<bar>k\<bar> \<le> 2 ^ 53 \<Longrightarrow> safe_integer (of_int k) = Some k"
  by (simp add: safe_integer_def quotient_of_int)

subsection \<open>Where a text starts\<close>

lemma skip_ws_app: "t \<noteq> [] \<Longrightarrow> \<not> json_ws (hd t) \<Longrightarrow> skip_ws (t @ r) = t @ r"
  by (cases t) (simp_all add: skip_ws_def)

lemma json_ws_chars [simp]:
  "\<not> json_ws CHR '','' " "\<not> json_ws CHR '']''" "\<not> json_ws CHR ''}''" "\<not> json_ws CHR '':''"
  "\<not> json_ws CHR ''-''" "\<not> json_ws (CHR 0x22)" "\<not> json_ws CHR ''[''" "\<not> json_ws CHR ''{''"
  "\<not> json_ws CHR ''n''" "\<not> json_ws CHR ''t''" "\<not> json_ws CHR ''f''"
  by (simp_all add: json_ws_def)

lemma is_dec_digit_not_special:
  "is_dec_digit c \<Longrightarrow> \<not> json_ws c \<and> c \<noteq> CHR '']'' \<and> c \<noteq> CHR ''}''"
  by (auto simp: is_dec_digit_def json_ws_def)

lemma int_to_dec_start:
  "int_to_dec k \<noteq> [] \<and> \<not> json_ws (hd (int_to_dec k)) \<and> hd (int_to_dec k) \<noteq> CHR '']'' \<and> hd (int_to_dec k) \<noteq> CHR ''}''"
proof -
  have "is_dec_digit (hd (nat_to_dec n))" for n
    using nat_to_dec_digits [of n] hd_in_set [OF nat_to_dec_ne] by blast
  then show ?thesis by (simp add: int_to_dec_def is_dec_digit_not_special)
qed

lemma json_text_start:
  "json_text v = Some t \<Longrightarrow> t \<noteq> [] \<and> \<not> json_ws (hd t) \<and> hd t \<noteq> CHR '']'' \<and> hd t \<noteq> CHR ''}''"
  by (cases v) (auto simp: json_quote_def int_to_dec_start split: jsnum.splits if_splits)

lemma join_comma_length: "ts \<noteq> [] \<Longrightarrow> length (join_comma ts) + 1 = sum_list (map length ts) + length ts"
  by (induction ts rule: join_comma.induct) simp_all

lemma join_comma_start: "\<forall>t \<in> set ts. t \<noteq> [] \<and> P (hd t) \<Longrightarrow> ts \<noteq> [] \<Longrightarrow> join_comma ts \<noteq> [] \<and> P (hd (join_comma ts))"
  by (induction ts rule: join_comma.induct) simp_all

subsection \<open>Elements and members\<close>

lemma skip_ws_Cons [simp]: "\<not> json_ws c \<Longrightarrow> skip_ws (c # s) = c # s"
  by (simp add: skip_ws_def)

lemma read_elems_join:
  assumes "list_all2 (\<lambda>x t. t \<noteq> [] \<and> \<not> json_ws (hd t) \<and> reads_back t x) xs ts"
    and "xs \<noteq> []" and "sum_list (map length ts) + length ts \<le> n"
  shows "read_elems n (join_comma ts @ CHR '']'' # r) = Some (xs, r)"
  using assms
proof (induction xs arbitrary: ts n)
  case (Cons x xs)
  note IH = Cons.IH
  obtain t ts' where ts: "ts = t # ts'" and hx: "reads_back t x"
    and rest: "list_all2 (\<lambda>x t. t \<noteq> [] \<and> \<not> json_ws (hd t) \<and> reads_back t x) xs ts'"
    using Cons.prems(1) by (auto simp: list_all2_Cons1)
  obtain n' where n: "n = Suc n'" and len: "length t + (sum_list (map length ts') + length ts') \<le> n'"
    using Cons.prems(3) ts by (cases n) auto
  show ?case
  proof (cases "xs = []")
    case True
    then have "ts' = []" using rest by simp
    moreover have "read_value n' (t @ CHR '']'' # r) = Some (x, CHR '']'' # r)"
      using hx len by (simp add: json_delim_def)
    ultimately show ?thesis using ts n True by simp
  next
    case False
    then obtain t' ts'' where ts': "ts' = t' # ts''" using rest by (cases ts') auto
    let ?tail = "join_comma ts' @ CHR '']'' # r"
    have rv: "read_value n' (t @ CHR '','' # ?tail) = Some (x, CHR '','' # ?tail)"
      using hx len by (simp add: json_delim_def)
    have "\<forall>t \<in> set ts'. t \<noteq> [] \<and> \<not> json_ws (hd t)"
      using list_all2_right [OF rest] by blast
    then have "join_comma ts' \<noteq> [] \<and> \<not> json_ws (hd (join_comma ts'))"
      using join_comma_start [of ts' "\<lambda>c. \<not> json_ws c"] ts' by simp
    then have st: "skip_ws ?tail = ?tail" by (simp add: skip_ws_app)
    have "read_elems n' ?tail = Some (xs, r)" using IH [OF rest False] len by simp
    then show ?thesis using rv st ts ts' n by (simp add: cons_fst_def)
  qed
qed simp

lemma read_members_member:
  assumes "t \<noteq> []" "\<not> json_ws (hd t)" "read_value n (t @ x) = Some (v, x)"
  shows "read_members (Suc n) ((json_quote k @ CHR '':'' # t) @ x) =
    (if skip_ws x \<noteq> [] \<and> hd (skip_ws x) = CHR '','' then cons_fst (k, v) (read_members n (skip_ws (tl (skip_ws x))))
     else if skip_ws x \<noteq> [] \<and> hd (skip_ws x) = CHR ''}'' then Some ([(k, v)], tl (skip_ws x))
     else None)"
  using assms by (simp add: json_quote_def read_chars_quoted skip_ws_app)

lemma read_members_join:
  assumes "list_all2 (\<lambda>kv m. \<exists>t. m = json_quote (fst kv) @ CHR '':'' # t \<and> t \<noteq> [] \<and> \<not> json_ws (hd t) \<and>
                                  reads_back t (snd kv)) kvs ms"
    and "kvs \<noteq> []" and "sum_list (map length ms) + length ms \<le> n"
  shows "read_members n (join_comma ms @ CHR ''}'' # r) = Some (kvs, r)"
  using assms
proof (induction kvs arbitrary: ms n)
  case (Cons kv kvs)
  note IH = Cons.IH
  obtain m ms' t where ms: "ms = m # ms'" and m: "m = json_quote (fst kv) @ CHR '':'' # t"
    and t: "t \<noteq> []" "\<not> json_ws (hd t)" and hx: "reads_back t (snd kv)"
    and rest: "list_all2 (\<lambda>kv m. \<exists>t. m = json_quote (fst kv) @ CHR '':'' # t \<and> t \<noteq> [] \<and> \<not> json_ws (hd t) \<and>
                                  reads_back t (snd kv)) kvs ms'"
    using Cons.prems(1) by (auto simp: list_all2_Cons1)
  obtain n' where n: "n = Suc n'" and len: "length m + (sum_list (map length ms') + length ms') \<le> n'"
    using Cons.prems(3) ms by (cases n) auto
  have lt: "length t \<le> n'" using len m by simp
  show ?case
  proof (cases "kvs = []")
    case True
    then have "ms' = []" using rest by simp
    moreover have "read_value n' (t @ CHR ''}'' # r) = Some (snd kv, CHR ''}'' # r)"
      using hx lt by (simp add: json_delim_def)
    ultimately show ?thesis using ms m n True read_members_member [OF t] by simp
  next
    case False
    then obtain m' ms'' where ms': "ms' = m' # ms''" using rest by (cases ms') auto
    let ?tail = "join_comma ms' @ CHR ''}'' # r"
    have rv: "read_value n' (t @ CHR '','' # ?tail) = Some (snd kv, CHR '','' # ?tail)"
      using hx lt by (simp add: json_delim_def)
    have "m \<noteq> [] \<and> \<not> json_ws (hd m)" if mi: "m \<in> set ms'" for m
    proof -
      obtain kv t where "m = json_quote (fst kv) @ CHR '':'' # t" using list_all2_right [OF rest mi] by auto
      then show ?thesis by (simp add: json_quote_def)
    qed
    then have "join_comma ms' \<noteq> [] \<and> \<not> json_ws (hd (join_comma ms'))"
      using join_comma_start [of ms' "\<lambda>c. \<not> json_ws c"] ms' by simp
    then have st: "skip_ws ?tail = ?tail" by (simp add: skip_ws_app)
    have "read_members n' ?tail = Some (kvs, r)" using IH [OF rest False] len by simp
    then show ?thesis using read_members_member [OF t rv] st ms ms' m n by (simp add: cons_fst_def)
  qed
qed simp

subsection \<open>Values\<close>

lemma read_value_array:
  assumes l: "list_all2 (\<lambda>x t. t \<noteq> [] \<and> \<not> json_ws (hd t) \<and> hd t \<noteq> CHR '']'' \<and> reads_back t x) xs ts"
  shows "reads_back (''['' @ join_comma ts @ '']'') (JArr xs)"
proof (intro allI impI)
  fix n r
  assume len: "length (''['' @ join_comma ts @ '']'') \<le> n" and r: "json_delim r"
  then obtain n' where n: "n = Suc n'" by (cases n) auto
  show "read_value n ((''['' @ join_comma ts @ '']'') @ r) = Some (JArr xs, r)"
  proof (cases "xs = []")
    case True
    then show ?thesis using l n by simp
  next
    case False
    then have ne: "ts \<noteq> []" using l by (cases ts) auto
    have "t \<noteq> [] \<and> \<not> json_ws (hd t) \<and> hd t \<noteq> CHR '']''" if ti: "t \<in> set ts" for t
      using list_all2_right [OF l ti] by auto
    then have "join_comma ts \<noteq> [] \<and> \<not> json_ws (hd (join_comma ts)) \<and> hd (join_comma ts) \<noteq> CHR '']''"
      using join_comma_start [of ts "\<lambda>c. \<not> json_ws c \<and> c \<noteq> CHR '']''"] ne by simp
    moreover have "read_elems n' (join_comma ts @ CHR '']'' # r) = Some (xs, r)"
      using read_elems_join [of xs ts n' r] l False len n join_comma_length [OF ne]
      by (simp add: list_all2_mono)
    ultimately show ?thesis using n by (simp add: skip_ws_app)
  qed
qed

lemma read_value_object:
  assumes l: "list_all2 (\<lambda>kv m. \<exists>t. m = json_quote (fst kv) @ CHR '':'' # t \<and> t \<noteq> [] \<and> \<not> json_ws (hd t) \<and>
                                    reads_back t (snd kv)) kvs ms"
  shows "reads_back (''{'' @ join_comma ms @ ''}'') (JObj kvs)"
proof (intro allI impI)
  fix n r
  assume len: "length (''{'' @ join_comma ms @ ''}'') \<le> n" and r: "json_delim r"
  then obtain n' where n: "n = Suc n'" by (cases n) auto
  show "read_value n ((''{'' @ join_comma ms @ ''}'') @ r) = Some (JObj kvs, r)"
  proof (cases "kvs = []")
    case True
    then show ?thesis using l n by simp
  next
    case False
    then have ne: "ms \<noteq> []" using l by (cases ms) auto
    have "m \<noteq> [] \<and> \<not> json_ws (hd m) \<and> hd m \<noteq> CHR ''}''" if mi: "m \<in> set ms" for m
    proof -
      obtain kv t where "m = json_quote (fst kv) @ CHR '':'' # t" using list_all2_right [OF l mi] by auto
      then show ?thesis by (simp add: json_quote_def)
    qed
    then have "join_comma ms \<noteq> [] \<and> \<not> json_ws (hd (join_comma ms)) \<and> hd (join_comma ms) \<noteq> CHR ''}''"
      using join_comma_start [of ms "\<lambda>c. \<not> json_ws c \<and> c \<noteq> CHR ''}''"] ne by simp
    moreover have "read_members n' (join_comma ms @ CHR ''}'' # r) = Some (kvs, r)"
      using read_members_join [OF l False, of n' r] len n join_comma_length [OF ne] by simp
    ultimately show ?thesis using n by (simp add: skip_ws_app)
  qed
qed

lemma reads_back_intro:
  assumes "\<And>n r. json_delim r \<Longrightarrow> length t \<le> Suc n \<Longrightarrow> read_value (Suc n) (t @ r) = Some (v, r)"
    and "t \<noteq> []"
  shows "reads_back t v"
proof (intro allI impI)
  fix n r
  assume "length t \<le> n" "json_delim r"
  with assms show "read_value n (t @ r) = Some (v, r)" by (cases n) auto
qed

lemma digit_not_value_start:
  "is_dec_digit c \<Longrightarrow> c \<noteq> CHR ''n'' \<and> c \<noteq> CHR ''t'' \<and> c \<noteq> CHR ''f'' \<and> c \<noteq> CHR 0x22 \<and> c \<noteq> CHR ''['' \<and> c \<noteq> CHR ''{''"
  by (auto simp: is_dec_digit_def)

lemma read_value_int: "json_delim r \<Longrightarrow> read_value (Suc n) (int_to_dec k @ r) = Some (JNum (Fin (of_int k)), r)"
proof -
  assume r: "json_delim r"
  obtain c cs where eq: "int_to_dec k = c # cs" using int_to_dec_start [of k] by (cases "int_to_dec k") auto
  have "is_dec_digit d" if "nat_to_dec m = d # ds" for m d ds
    using nat_to_dec_digits [of m] that by simp
  then have "c = CHR ''-'' \<or> is_dec_digit c" using eq by (auto simp: int_to_dec_def split: if_splits)
  then have "c \<noteq> CHR ''n'' \<and> c \<noteq> CHR ''t'' \<and> c \<noteq> CHR ''f'' \<and> c \<noteq> CHR 0x22 \<and> c \<noteq> CHR ''['' \<and> c \<noteq> CHR ''{''"
    using digit_not_value_start by auto
  then show ?thesis using eq read_number_int [OF r, of k] by simp
qed

lemma reads_back_null: "reads_back ''null'' JNull"
  by (rule reads_back_intro) simp_all

lemma reads_back_bool: "reads_back (if b then ''true'' else ''false'') (JBool b)"
  by (rule reads_back_intro) simp_all

lemma reads_back_string: "reads_back (json_quote s) (JStr s)"
  by (rule reads_back_intro) (simp_all add: json_quote_def read_chars_quoted)

lemma json_text_reads: "printable v \<Longrightarrow> \<exists>t. json_text v = Some t \<and> reads_back t v"
proof (induction v rule: printable.induct)
  case (2 n)
  then obtain q a where n: "n = Fin q" and a: "safe_integer q = Some a" by (auto split: jsnum.splits)
  have "reads_back (int_to_dec a) (JNum n)"
  proof (rule reads_back_intro)
    fix m r
    assume "json_delim r"
    then show "read_value (Suc m) (int_to_dec a @ r) = Some (JNum n, r)"
      unfolding n safe_integer_Some [OF a] by (rule read_value_int)
  qed (simp add: int_to_dec_start)
  then show ?case using n a by simp
next
  case (3 xs)
  then have "\<forall>x \<in> set xs. \<exists>t. json_text x = Some t \<and> reads_back t x" by (simp add: list_all_iff)
  then obtain ts where l: "list_all2 (\<lambda>x t. json_text x = Some t \<and> reads_back t x) xs ts"
    using list_all2_choice [of xs "\<lambda>x t. json_text x = Some t \<and> reads_back t x"] by blast
  have "x \<noteq> JUndef" if "x \<in> set xs" for x using 3(2) that by (auto simp: list_all_iff)
  then have m: "map (\<lambda>x. if x = JUndef then Some ''null'' else json_text x) xs = map json_text xs" by simp
  have "those (map json_text xs) = Some ts"
    using l by (auto simp: those_map_Some elim: list_all2_mono)
  then have "json_text (JArr xs) = Some (''['' @ join_comma ts @ '']'')" by (simp add: m)
  moreover have "list_all2 (\<lambda>x t. t \<noteq> [] \<and> \<not> json_ws (hd t) \<and> hd t \<noteq> CHR '']'' \<and> reads_back t x) xs ts"
    using l by (rule list_all2_mono) (auto dest: json_text_start)
  then have "reads_back (''['' @ join_comma ts @ '']'') (JArr xs)" by (rule read_value_array)
  ultimately show ?case by blast
next
  case (4 kvs)
  let ?Q = "\<lambda>kv m. \<exists>t. m = json_quote (fst kv) @ CHR '':'' # t \<and> json_text (snd kv) = Some t \<and> reads_back t (snd kv)"
  from 4 have "\<forall>kv \<in> set kvs. \<exists>m. ?Q kv m" by (auto simp: list_all_iff)
  then obtain ms where l: "list_all2 ?Q kvs ms" using list_all2_choice [of kvs ?Q] by blast
  have "snd kv \<noteq> JUndef" if "kv \<in> set kvs" for kv using 4(2) that by (auto simp: list_all_iff)
  then have f: "filter (\<lambda>kv. snd kv \<noteq> JUndef) kvs = kvs" by simp
  have "those (map (\<lambda>kv. map_option (\<lambda>t. json_quote (fst kv) @ '':'' @ t) (json_text (snd kv))) kvs) = Some ms"
    using l by (auto simp: those_map_Some elim!: list_all2_mono)
  then have "json_text (JObj kvs) = Some (''{'' @ join_comma ms @ ''}'')" by (simp add: f)
  moreover have "list_all2 (\<lambda>kv m. \<exists>t. m = json_quote (fst kv) @ CHR '':'' # t \<and> t \<noteq> [] \<and>
                                \<not> json_ws (hd t) \<and> reads_back t (snd kv)) kvs ms"
    using l by (rule list_all2_mono) (auto dest: json_text_start)
  then have "reads_back (''{'' @ join_comma ms @ ''}'') (JObj kvs)" by (rule read_value_object)
  ultimately show ?case by blast
qed (use reads_back_null reads_back_bool reads_back_string in auto)

subsection \<open>The round trip\<close>

lemma parse_json_text: "printable v \<Longrightarrow> json_text v = Some t \<Longrightarrow> parse_json t = Some v"
proof -
  assume p: "printable v" and t: "json_text v = Some t"
  from json_text_reads [OF p] t have rb: "reads_back t v" by auto
  have "skip_ws t = t" using json_text_start [OF t] skip_ws_app [of t "[]"] by simp
  moreover have "read_value (length t) (t @ []) = Some (v, [])" using rb by (simp add: json_delim_def)
  ultimately show ?thesis by (simp add: parse_json_def skip_ws_def)
qed

text \<open>
  Every value whose text \<open>JSON.stringify\<close> prints (no \<open>undefined\<close>, numbers
  safe integers) has a text, and the receiver's JSON parser reads that text
  back as the same value: strings with every escape, arrays and objects with
  their members in order.
\<close>

lemma json_text_roundtrip: "printable v \<Longrightarrow> \<exists>t. json_text v = Some t \<and> parse_json t = Some v"
  using json_text_reads parse_json_text by blast

text \<open>
  The text \<open>JSON.stringify\<close> writes for a value is the text of the JSON
  value it denotes (\<open>json_serialize\<close>, which the handler model sends and
  replies with): dropping \<open>undefined\<close> members, \<open>null\<close> for \<open>undefined\<close>
  array elements and for \<open>NaN\<close> and the infinities changes no character.
\<close>

lemma json_text_serialize: "json_text (json_serialize v) = json_text v"
proof (induction v rule: json_serialize.induct)
  case (1 n)
  then show ?case by (cases n) simp_all
next
  case (2 xs)
  have "map (\<lambda>x. if x = JUndef then Some ''null'' else json_text x) (map (\<lambda>x. undef_to_null (json_serialize x)) xs) =
        map (\<lambda>x. if x = JUndef then Some ''null'' else json_text x) xs"
    using 2 by (auto simp: undef_to_null_def)
  then show ?case by (simp del: map_map)
next
  case (3 kvs)
  have "map (\<lambda>kv. map_option (\<lambda>t. json_quote (fst kv) @ '':'' @ t) (json_text (snd kv)))
          (filter (\<lambda>kv. snd kv \<noteq> JUndef) (map (\<lambda>kv. (fst kv, json_serialize (snd kv))) kvs)) =
        map (\<lambda>kv. map_option (\<lambda>t. json_quote (fst kv) @ '':'' @ t) (json_text (snd kv)))
          (filter (\<lambda>kv. snd kv \<noteq> JUndef) kvs)"
    using 3 by (simp add: filter_map comp_def)
  then show ?case by (simp add: filter_map comp_def del: map_eq_conv)
qed simp_all

subsection \<open>The order and the rejection, on the wire\<close>

lemma printable_serialize_id: "printable v \<Longrightarrow> json_serialize v = v"
proof (induction v rule: json_serialize.induct)
  case (1 n)
  then show ?case by (cases n) simp_all
next
  case (2 xs)
  then have "\<forall>x \<in> set xs. undef_to_null (json_serialize x) = x"
    by (auto simp: undef_to_null_def list_all_iff)
  then show ?case by (simp add: map_idI)
next
  case (3 kvs)
  then have "\<forall>kv \<in> set kvs. (fst kv, json_serialize (snd kv)) = kv \<and> snd kv \<noteq> JUndef"
    by (fastforce simp: list_all_iff)
  then have "map (\<lambda>kv. (fst kv, json_serialize (snd kv))) kvs = kvs"
    and "\<forall>kv \<in> set kvs. snd kv \<noteq> JUndef"
    by (simp_all add: map_idI)
  then show ?case by simp
qed simp_all

text \<open>
  C25: when the provider's reply has no QR code, the log line of line 88 and
  the 400 reply of line 89 carry the same JSON text of the reply, and that text
  parses back to the reply: the line is \<open>Erro PagBank: \<close> followed by it, the
  body is \<open>{"error":...,"detalhe":\<close> followed by it and \<open>}\<close>.
\<close>

theorem rejection_texts:
  assumes r: "map_reply data = Inr (Rejected d)" and pd: "printable d"
  shows "\<exists>t resp w. parse_json t = Some d \<and>
           map log_text (logs (after_fetch ob (Replied (Inr data)))) = [Some (''Erro PagBank: '' @ t)] \<and>
           outcome (after_fetch ob (Replied (Inr data))) = Responded resp \<and> status resp = 400 \<and>
           body resp = JsonBody w \<and>
           json_text w = Some (''{'' @ json_quote ''error'' @ '':'' @ json_quote msg_rejected @ '','' @
                                json_quote ''detalhe'' @ '':'' @ t @ ''}'')"
proof -
  obtain t where t: "json_text d = Some t" using json_text_reads [OF pd] by blast
  have "parse_json t = Some d" by (rule parse_json_text [OF pd t])
  moreover have "json_serialize d = d" by (rule printable_serialize_id [OF pd])
  moreover have "d \<noteq> JUndef" using pd by auto
  ultimately show ?thesis
    using r t by (simp add: after_fetch_def reply_def log_text_def)
qed

theorem rejection_texts_witness:
  "\<exists>t resp w. parse_json t = Some (JObj [(''qr_codes'', JArr [])]) \<and>
     map log_text (logs (after_fetch (provider_request [] JNull) (Replied (Inr (JObj [(''qr_codes'', JArr [])]))))) = [Some (''Erro PagBank: '' @ t)] \<and>
     outcome (after_fetch (provider_request [] JNull) (Replied (Inr (JObj [(''qr_codes'', JArr [])])))) = Responded resp \<and> status resp = 400 \<and>
     body resp = JsonBody w \<and>
     json_text w = Some (''{'' @ json_quote ''error'' @ '':'' @ json_quote msg_rejected @ '','' @
                          json_quote ''detalhe'' @ '':'' @ t @ ''}'')"
  by (rule rejection_texts [OF map_reply_empty]) simp_all

end
