(* ===== verification/Spec2Isabelle.thy ===== *)
theory Spec2Isabelle
  imports Contract Server IsoRead JsonText Binary64
begin

text \<open>
  \<^bold>\<open>A verification model of the PIX payment endpoint src/api/gerar-pix.js.\<close>

  \<^emph>\<open>The program.\<close>  One serverless request handler, \<open>handler(req, res)\<close>
  (lines 1-96).  It sets four CORS headers (lines 3-6), answers a preflight
  \<open>OPTIONS\<close> with an empty 200 (8-11), refuses every method but \<open>POST\<close> with
  405 (13-15), reads the token \<open>PAGBANK_TOKEN\<close> from the environment and answers
  500 when it is missing or empty (18-23), destructures \<open>valor\<close>, \<open>nome\<close>,
  \<open>cpf\<close> from the parsed body (25) and answers 400 when \<open>cpf\<close> is falsy
  (28-30).  Inside a \<open>try\<close> (32-95) it builds the order \<open>pedido\<close> (34-56),
  sends it with one \<open>fetch\<close> to the provider (59-67), parses the reply (69)
  and maps it (72-90): the first QR code's text and PNG link with 200, or the
  reply itself as \<open>detalhe\<close> with 400.  Any exception in the \<open>try\<close> becomes
  a 500 carrying the exception's message (92-95).

  \<^emph>\<open>The theories.\<close>
  \<^item> \<open>Prelude\<close>: the exception monad \<open>ebind\<close> (a thrown error is \<open>Inl\<close> and
    stops the evaluation, as \<open>throw\<close> does), decimal printing of naturals and
    integers (\<open>nat_to_dec\<close>, \<open>int_to_dec\<close>, \<open>pad_dec\<close>) with their reading
    \<open>dec_val\<close>, the ASCII digit class of the regular expression \<open>\D\<close>.
  \<^item> \<open>JsNumber\<close>: JavaScript numbers \<open>jsnum\<close> (rationals, \<open>NaN\<close>,
    \<open>\<plusminus>\<infinity>\<close>), the exact product \<open>js_mult\<close> of Number::multiply, \<open>Math.round\<close> as \<open>math_round\<close>,
    comparison \<open>js_less\<close>, and StringToNumber \<open>string_to_number\<close> with the
    full StringNumericLiteral grammar (white space, sign, \<open>Infinity\<close>,
    fraction, exponent, \<open>0x\<close>/\<open>0o\<close>/\<open>0b\<close>), giving the literal's
    mathematical value.
  \<^item> \<open>JsValue\<close>: parsed JSON and JavaScript values \<open>jval\<close>, the errors
    \<open>js_error\<close>, ToBoolean \<open>truthy\<close>, property read \<open>get_prop\<close> (TypeError
    on \<open>null\<close>/\<open>undefined\<close>), ToNumber \<open>to_number\<close> (with ToPrimitive of objects
    and arrays), and the value \<open>JSON.stringify\<close> transmits, \<open>json_serialize\<close>.
  \<^item> \<open>IsoDate\<close>: ECMAScript's date algorithms (\<open>day_from_year\<close>, the year
    search \<open>year_from_day\<close>, \<open>month_from_dwy\<close>, \<open>date_from_dwy\<close>) and
    \<open>to_iso_string\<close>, the \<open>toISOString()\<close> of line 53.
  \<^item> \<open>Binary64\<close>: the engine's arithmetic of the amount: \<open>number_value\<close>,
    the Number value of a rational (IEEE-754 binary64, round to nearest ties
    to even, subnormals, overflow to the infinities), Number::multiply
    \<open>js_mult64\<close>, ToNumber with rounding \<open>to_number64\<close>, and
    \<open>amount_cents64\<close>, \<open>Math.round(valor * 100)\<close> of lines 45 and 51 as
    the engine evaluates it; \<open>amount_cents\<close>, the same expression on exact
    rationals, is the decimal reference it is compared with.
  \<^item> \<open>Order\<close>: the tax id normalisation \<open>strip_non_digits\<close>/\<open>tax_id_of\<close>
    (line 39), the amount \<open>amount_cents64\<close> (lines 45, 51) and the order
    \<open>build_order\<close>/\<open>order_json\<close> (lines 34-56), evaluated left to right.
  \<^item> \<open>Provider\<close>: the mapping of the parsed reply \<open>map_reply\<close> (lines 72-90),
    with \<open>find_link\<close> for \<open>links.find\<close> and \<open>qr_image\<close>/\<open>qr_result\<close>.
  \<^item> \<open>Handler\<close>: the records \<open>request\<close>, \<open>outbound\<close>, \<open>http_response\<close> and
    \<open>run\<close> (the outcome, the \<open>console.error\<close> lines, the outbound calls),
    the provider as a function \<open>provider\<close> from the outbound request to what
    \<open>fetch\<close> and \<open>response.json()\<close> produce, and \<open>handler\<close>, composed
    of \<open>handle_post\<close>, \<open>create_order\<close> and \<open>after_fetch\<close> as the code nests
    its blocks.
  \<^item> \<open>IsoRead\<close>: a reader \<open>read_iso_utc\<close> for the full UTC form of
    ECMAScript's Date Time String Format (ECMA-262, 21.4.1.32: syntax, field
    ranges, MakeDay/MakeTime/TimeClip), a reference definition against which
    the expiration date the code prints is checked.
  \<^item> \<open>Contract\<close>: the documented contract (spec.md, sections 3, 4.1, 6, 7) as
    an abstract specification: the typed request \<open>pay_request\<close>, order
    \<open>spec_order\<close> and provider reply \<open>provider_reply\<close>, the abstract handler
    \<open>spec_handler\<close> (the linear state machine of section 4.1 with one verdict
    per row of the outcome table), and the functions that encode the typed
    values as JSON (\<open>encode_request\<close>, \<open>encode_order\<close>, \<open>encode_reply\<close>)
    and realise an abstract run on the wire (\<open>realize\<close>).
  \<^item> \<open>Server\<close>: the handler split at its \<open>await\<close> (\<open>handler_start\<close>, the
    synchronous part up to the call of \<open>fetch\<close>, and \<open>resume\<close>), proved equal
    to \<open>handler\<close> (\<open>handler_split\<close>); the runtime's interleaving of
    invocations (spec.md, section 5) as the step relation \<open>server_step\<close> on a
    \<open>world\<close> of pending, suspended and finished invocations and the requests
    on the wire, with its reachable states \<open>server_reach\<close>.
  \<^item> \<open>JsonText\<close>: the text \<open>JSON.stringify\<close> writes, \<open>json_text\<close>
    (QuoteJSONString \<open>json_escape\<close>/\<open>json_quote\<close>, the separators
    \<open>join_comma\<close>, integer numerals up to \<open>2\<^sup>5\<^sup>3\<close> by \<open>safe_integer\<close>), the
    line \<open>console.error\<close> prints for a log entry, \<open>log_text\<close> (lines 21
    and 88), and a reference RFC 8259 parser \<open>parse_json\<close> on fuel (the
    receiver's side: the provider for the body of line 66, a log reader for
    line 88); the length of a text is enough fuel, since every nested value
    is read with fuel at most its own length.
  \<^item> This theory: the properties of the whole handler.

  \<^emph>\<open>Inputs and effects.\<close>  The handler is a function of the environment token
  (\<open>string option\<close>), the provider, the two readings of \<open>Date.now()\<close>
  (lines 35 and 53 read the clock separately) and the request.  Its effects are
  explicit in the result: the response sent, or \<open>Uncaught\<close> for an exception
  that leaves the handler (outside the \<open>try\<close>); the log entries; the outbound
  requests.  Invocations share no state (the token is read-only); the
  runtime interleaves them at the one suspension point, which \<open>Server\<close>
  models with an arbitrary provider answer at each resumption.

  \<^emph>\<open>What is proved.\<close>  The outcome of every branch of the handler (C1-C8,
  C11), that every run makes at most one outbound call (C9) and that every
  response carries the CORS headers (C10).  The amount: every amount with at
  most two decimals becomes its exact number of cents in the engine's
  arithmetic (C12).  The tax id normalisation recovers the digits of a
  masked CPF (C13).  The behaviours the spec leaves open, stated as theorems:
  an amount that is not a number is sent as \<open>null\<close> (C14), zero and negative
  amounts are forwarded (C15), an absurdly large amount overflows and is sent
  as \<open>null\<close> (C16), a half-cent amount is rounded down where section 4.1's
  \<open>round(amount \<times> 100)\<close> rounds up (C17), a tax id that is not a string
  gives a 500 (C18).  The refinement of the contract (C19, C20): on every
  request whose amount is a currency amount in centavos and every provider
  answer of the documented shape, the handler's run is the realisation of
  \<open>spec_handler\<close>, by way of the refinement of the order construction
  (\<open>Contract.build_order_encoded\<close>) and of the reply mapping.  The
  interleaving of invocations (C21): by rule induction over the reachable
  states, at most one request per invocation is on the wire and each carries
  the token; the same induction shows that every finished invocation did what
  the sequential handler does on its own request, that every state can be
  completed and that no schedule is infinite (a measure of two steps per
  invocation).  Every order expires exactly one hour after the second clock
  reading, read back by the reference reader of the ISO format (C22).  A tax
  id without digits is sent empty (C23), and two orders share a reference id
  exactly when built in the same millisecond (C24).  The rejection's log line
  and 400 reply carry one text of the provider's reply, which parses back to
  it (C25).  Library lemmas the claims rest on: YearFromTime and the
  recomposition of the printed date fields (\<open>IsoDate\<close>), that what
  \<open>toISOString\<close> prints reads back and has 24 characters from 1970 to 9999
  (\<open>IsoRead\<close>), that every value the handler serialises is JSON
  (\<open>JsValue\<close>), and the JSON text round trip (\<open>JsonText\<close>).

  \<^emph>\<open>Abstractions.\<close>  The amount, the one non-integer computation of the
  handler, is computed in binary64 (\<open>Binary64\<close>): the request's JSON number
  is a Number value, a numeric string is rounded to one, and the product
  \<open>valor * 100\<close> is rounded; \<open>Math.round\<close> is exact on a Number value.  The
  other numbers (clock readings, dates, the quantity 1) are integers that
  binary64 holds exactly, and are computed as integers.  The bounds in the
  amount theorems come from the format: below \<open>2\<^sup>4\<^sup>9\<close> cents the two
  roundings together stay far under half a cent (C12, C19); magnitudes up to
  \<open>10\<^sup>3\<^sup>0\<^sup>5\<close> stay finite through \<open>valor * 100\<close> (C15), and from \<open>10\<^sup>3\<^sup>0\<^sup>7\<close> on the
  product exceeds \<open>2\<^sup>1\<^sup>0\<^sup>2\<^sup>5\<close> and overflows (C16).  Strings are sequences of
  8-bit code units (UTF-16 units above 255 are not represented).  Property
  reads use only own properties, which is exact for the keys the handler
  reads.  The HTTP layer (Vercel's body parsing, the network, the provider's
  pricing) is outside the model; the provider is an arbitrary function, so
  every theorem holds for every provider behaviour it does not constrain.

  \<^emph>\<open>Not modelled.\<close>  The platform's parsing of the request body (the model
  starts from the parsed value) and the \<open>res\<close> object's serialisation of
  headers and status; the line \<open>console.error\<close> prints for the caught error
  (line 93: \<open>util.inspect\<close> of an Error, its stack trace, which depends on
  the runtime); the text of a Number that is not an integer of magnitude at
  most \<open>2\<^sup>5\<^sup>3\<close> (Number::toString's shortest round-trip digit generation,
  ECMA-262 6.1.6.1.20, which the handler only reaches through JSON.stringify
  of such amounts); the sign of zero; the network itself.  The two awaits of
  lines 59 and 69 are one suspension in \<open>Server\<close>: nothing the handler does lies between
  them and invocations share no state, so a second interleaving point would
  add schedules but no behaviour.  The contract reads "absent" in section 4.1
  as JavaScript falsiness for the name and the tax id, as the code does.
\<close>

subsection \<open>The branches of the handler\<close>

text \<open>
  C1: a preflight \<open>OPTIONS\<close> request is answered with an empty 200 carrying
  the CORS headers, whatever the configuration, the clock and the body, with no
  log line and no outbound call.
\<close>

theorem handler_options_preflight:
  "handler env fetch t1 t2 \<lparr>req_method = ''OPTIONS'', req_body = b\<rparr> =
     \<lparr>outcome = Responded \<lparr>status = 200, headers = cors_headers, body = NoBody\<rparr>,
      logs = [], calls = []\<rparr>"
  by (simp add: handler_def respond_def)

text \<open>
  C2: any method other than \<open>OPTIONS\<close> and \<open>POST\<close> is answered 405 with the
  error message of line 14, before the configuration or the body is looked at.
\<close>

theorem handler_method_not_allowed:
  assumes "m \<noteq> ''OPTIONS''" and "m \<noteq> ''POST''"
  shows "handler env fetch t1 t2 \<lparr>req_method = m, req_body = b\<rparr> =
           respond (reply 405 (error_body msg_method)) []"
  using assms by (simp add: handler_def)

theorem handler_method_not_allowed_witness:
  "handler None (\<lambda>_. FetchFailed (NetworkError ''down'')) 0 0 \<lparr>req_method = ''GET'', req_body = JNull\<rparr> =
     respond (reply 405 (error_body msg_method)) []"
  by (rule handler_method_not_allowed) simp_all

text \<open>
  C3: a \<open>POST\<close> without a configured token, or with an empty one (falsy in
  JavaScript), is answered 500 with the configuration message and one log line,
  whatever the body, and no order is sent.
\<close>

theorem handler_missing_token:
  assumes "env = None \<or> env = Some []"
  shows "handler env fetch t1 t2 \<lparr>req_method = ''POST'', req_body = b\<rparr> =
           respond (reply 500 (error_body msg_token)) [LogTokenMissing]"
  using assms by (auto simp: handler_def)

theorem handler_missing_token_witness:
  "handler (Some []) (\<lambda>_. FetchFailed (NetworkError ''down'')) 0 0
     \<lparr>req_method = ''POST'', req_body = JObj [(''cpf'', JStr ''1'')]\<rparr> =
   respond (reply 500 (error_body msg_token)) [LogTokenMissing]"
  by (rule handler_missing_token) simp

text \<open>
  C4: with a token, a body whose \<open>cpf\<close> is falsy (missing, \<open>null\<close>, \<open>""\<close>,
  \<open>0\<close>, \<open>false\<close>) is answered 400 with the message of line 29, and no order
  is sent.
\<close>

theorem handler_missing_cpf:
  assumes "tok \<noteq> []" and "destructure b = Inr (v, n, c)" and "\<not> truthy c"
  shows "handler (Some tok) fetch t1 t2 \<lparr>req_method = ''POST'', req_body = b\<rparr> =
           respond (reply 400 (error_body msg_cpf)) []"
  using assms by (simp add: handler_def handle_post_def)

theorem handler_missing_cpf_witness:
  "handler (Some ''tok'') (\<lambda>_. FetchFailed (NetworkError ''down'')) 0 0
     \<lparr>req_method = ''POST'', req_body = JObj [(''valor'', JNum (Fin 10))]\<rparr> =
   respond (reply 400 (error_body msg_cpf)) []"
proof -
  have d: "destructure (JObj [(''valor'', JNum (Fin 10))]) = Inr (JNum (Fin 10), JUndef, JUndef)"
    by (simp add: destructure_def get_field_def)
  show ?thesis by (rule handler_missing_cpf [OF _ d]) simp_all
qed

text \<open>
  C5: on the success path (a token, a truthy \<open>cpf\<close>, an order that builds,
  a provider reply that maps to a QR code) the handler sends exactly one
  request, the order to the provider with the bearer token, and answers 200
  with the mapped object, logging nothing.
\<close>

theorem handler_qr_success:
  assumes "tok \<noteq> []" and "destructure b = Inr (v, n, c)" and "truthy c"
    and "build_order t1 t2 v n c = Inr p"
    and "fetch (provider_request tok p) = Replied (Inr data)"
    and "map_reply data = Inr (QrFound res)"
  shows "handler (Some tok) fetch t1 t2 \<lparr>req_method = ''POST'', req_body = b\<rparr> =
           \<lparr>outcome = Responded (reply 200 res), logs = [], calls = [provider_request tok p]\<rparr>"
  using assms by (simp add: handler_reaches_order after_fetch_def)

theorem handler_qr_success_witness:
  "handler (Some ''tok'')
     (\<lambda>_. Replied (Inr (JObj [(''id'', JStr ''O1''),
                    (''qr_codes'', JArr [JObj [(''text'', JStr ''X''),
                       (''links'', JArr [JObj [(''rel'', JStr ''QRCODE.PNG''), (''href'', JStr ''U'')]])]])]))) 0 0
     \<lparr>req_method = ''POST'',
      req_body = JObj [(''valor'', JNum (Fin (21/2))), (''cpf'', JStr ''123.456.789-00'')]\<rparr> =
   \<lparr>outcome = Responded (reply 200 (JObj [(''id'', JStr ''O1''), (''qr_code'', JStr ''X''),
                                          (''qr_code_base64_url'', JStr ''U'')])),
    logs = [],
    calls = [provider_request ''tok''
               (order_json 0 JUndef ''12345678900'' (Fin 1050) (Fin 1050) ''1970-01-01T01:00:00.000Z'')]\<rparr>"
proof -
  have d: "destructure (JObj [(''valor'', JNum (Fin (21/2))), (''cpf'', JStr ''123.456.789-00'')]) =
           Inr (JNum (Fin (21/2)), JUndef, JStr ''123.456.789-00'')"
    by (simp add: destructure_def get_field_def)
  have o: "build_order 0 0 (JNum (Fin (21/2))) JUndef (JStr ''123.456.789-00'') =
           Inr (order_json 0 JUndef ''12345678900'' (Fin 1050) (Fin 1050) ''1970-01-01T01:00:00.000Z'')"
    by code_simp
  have r: "map_reply (JObj [(''id'', JStr ''O1''),
                    (''qr_codes'', JArr [JObj [(''text'', JStr ''X''),
                       (''links'', JArr [JObj [(''rel'', JStr ''QRCODE.PNG''), (''href'', JStr ''U'')]])]])]) =
           Inr (QrFound (JObj [(''id'', JStr ''O1''), (''qr_code'', JStr ''X''), (''qr_code_base64_url'', JStr ''U'')]))"
    by code_simp
  show ?thesis by (rule handler_qr_success [OF _ d _ o _ r]) simp_all
qed

text \<open>
  C7: when the provider's reply is a JSON object whose \<open>qr_codes\<close> is the
  empty array, the handler answers 400 with the rejection message and the reply
  itself, unchanged, as \<open>detalhe\<close>, and logs the reply.
\<close>

theorem handler_empty_qr_codes:
  assumes "tok \<noteq> []" and "destructure b = Inr (v, n, c)" and "truthy c"
    and "build_order t1 t2 v n c = Inr p"
    and "fetch (provider_request tok p) = Replied (Inr (JObj kvs))"
    and "json_value (JObj kvs)" and "map_of kvs ''qr_codes'' = Some (JArr [])"
  shows "handler (Some tok) fetch t1 t2 \<lparr>req_method = ''POST'', req_body = b\<rparr> =
           \<lparr>outcome = Responded \<lparr>status = 400, headers = cors_headers,
              body = JsonBody (JObj [(''error'', JStr msg_rejected), (''detalhe'', JObj kvs)])\<rparr>,
            logs = [LogProviderRejected (JObj kvs)], calls = [provider_request tok p]\<rparr>"
proof -
  have "json_value (JObj [(''error'', JStr msg_rejected), (''detalhe'', JObj kvs)])"
    using assms(6) by simp
  then have "json_serialize (JObj [(''error'', JStr msg_rejected), (''detalhe'', JObj kvs)]) =
             JObj [(''error'', JStr msg_rejected), (''detalhe'', JObj kvs)]"
    by (rule json_serialize_id)
  moreover have "map_reply (JObj kvs) = Inr (Rejected (JObj kvs))"
    using assms(7) by (rule map_reply_empty)
  ultimately show ?thesis
    using assms(1-5) by (simp add: handler_reaches_order after_fetch_rejected reply_def)
qed

theorem handler_empty_qr_codes_witness:
  "handler (Some ''tok'') (\<lambda>_. Replied (Inr (JObj [(''qr_codes'', JArr [])]))) 0 0
     \<lparr>req_method = ''POST'', req_body = JObj [(''valor'', JNum (Fin 5)), (''cpf'', JStr ''1'')]\<rparr> =
   \<lparr>outcome = Responded \<lparr>status = 400, headers = cors_headers,
      body = JsonBody (JObj [(''error'', JStr msg_rejected), (''detalhe'', JObj [(''qr_codes'', JArr [])])])\<rparr>,
    logs = [LogProviderRejected (JObj [(''qr_codes'', JArr [])])],
    calls = [provider_request ''tok'' (order_json 0 JUndef ''1'' (Fin 500) (Fin 500) ''1970-01-01T01:00:00.000Z'')]\<rparr>"
proof -
  have d: "destructure (JObj [(''valor'', JNum (Fin 5)), (''cpf'', JStr ''1'')]) =
           Inr (JNum (Fin 5), JUndef, JStr ''1'')"
    by (simp add: destructure_def get_field_def)
  have o: "build_order 0 0 (JNum (Fin 5)) JUndef (JStr ''1'') =
           Inr (order_json 0 JUndef ''1'' (Fin 500) (Fin 500) ''1970-01-01T01:00:00.000Z'')"
    by code_simp
  show ?thesis by (rule handler_empty_qr_codes [OF _ d _ o]) simp_all
qed

text \<open>
  C8: when the outbound call fails (a network error, or a reply that is not
  JSON), the handler answers 500 with the failure's message and logs it; the
  order had been sent once.
\<close>

theorem handler_fetch_failure:
  assumes "tok \<noteq> []" and "destructure b = Inr (v, n, c)" and "truthy c"
    and "build_order t1 t2 v n c = Inr p"
    and "fetch (provider_request tok p) = FetchFailed e \<or> fetch (provider_request tok p) = Replied (Inl e)"
  shows "handler (Some tok) fetch t1 t2 \<lparr>req_method = ''POST'', req_body = b\<rparr> =
           \<lparr>outcome = Responded (reply 500 (error_body (error_message e))),
            logs = [LogInternal e], calls = [provider_request tok p]\<rparr>"
  using assms by (auto simp: handler_reaches_order after_fetch_def internal_error_def)

theorem handler_fetch_failure_witness:
  "handler (Some ''tok'') (\<lambda>_. FetchFailed (NetworkError ''fetch failed'')) 0 0
     \<lparr>req_method = ''POST'', req_body = JObj [(''valor'', JNum (Fin 5)), (''cpf'', JStr ''1'')]\<rparr> =
   \<lparr>outcome = Responded (reply 500 (error_body ''fetch failed'')),
    logs = [LogInternal (NetworkError ''fetch failed'')],
    calls = [provider_request ''tok'' (order_json 0 JUndef ''1'' (Fin 500) (Fin 500) ''1970-01-01T01:00:00.000Z'')]\<rparr>"
proof -
  have d: "destructure (JObj [(''valor'', JNum (Fin 5)), (''cpf'', JStr ''1'')]) =
           Inr (JNum (Fin 5), JUndef, JStr ''1'')"
    by (simp add: destructure_def get_field_def)
  have o: "build_order 0 0 (JNum (Fin 5)) JUndef (JStr ''1'') =
           Inr (order_json 0 JUndef ''1'' (Fin 500) (Fin 500) ''1970-01-01T01:00:00.000Z'')"
    by code_simp
  have "handler (Some ''tok'') (\<lambda>_. FetchFailed (NetworkError ''fetch failed'')) 0 0
     \<lparr>req_method = ''POST'', req_body = JObj [(''valor'', JNum (Fin 5)), (''cpf'', JStr ''1'')]\<rparr> =
   \<lparr>outcome = Responded (reply 500 (error_body (error_message (NetworkError ''fetch failed'')))),
    logs = [LogInternal (NetworkError ''fetch failed'')],
    calls = [provider_request ''tok'' (order_json 0 JUndef ''1'' (Fin 500) (Fin 500) ''1970-01-01T01:00:00.000Z'')]\<rparr>"
    by (rule handler_fetch_failure [OF _ d _ o]) simp_all
  then show ?thesis by simp
qed

subsection \<open>Properties of every run\<close>

text \<open>
  C9: every run of the handler makes at most one outbound request: there is
  no retry, and the early returns make none.
\<close>

theorem handler_at_most_one_call: "length (calls (handler env fetch t1 t2 req)) \<le> 1"
  using handle_post_calls [of fetch t1 t2]
  by (simp add: handler_def split: option.split)

text \<open>
  C10: every response the handler sends carries the four CORS headers of
  lines 3-6, on every branch, errors included.
\<close>

theorem handler_responses_carry_cors:
  assumes "outcome (handler env fetch t1 t2 req) = Responded resp"
  shows "headers resp = cors_headers"
  using assms
  by (auto simp: handler_def dest: handle_post_headers split: option.splits if_splits)

theorem handler_responses_carry_cors_witness:
  "headers \<lparr>status = 200, headers = cors_headers, body = NoBody\<rparr> = cors_headers"
  by (rule handler_responses_carry_cors [of None "\<lambda>_. FetchFailed (NetworkError ''x'')" 0 0
        "\<lparr>req_method = ''OPTIONS'', req_body = JNull\<rparr>"])
     (simp add: handler_def)

text \<open>
  C11: an exception escapes the handler (no response is sent by the code) exactly
  when a POST with a token has a body that cannot be destructured, that is
  \<open>null\<close> or \<open>undefined\<close>: line 25 is outside the \<open>try\<close>.
\<close>

theorem handler_uncaught_iff:
  "outcome (handler env fetch t1 t2 req) = Uncaught e \<longleftrightarrow>
     req_method req = ''POST'' \<and> (\<exists>tok. env = Some tok \<and> tok \<noteq> []) \<and>
     destructure (req_body req) = Inl e"
  by (auto simp: handler_def handle_post_uncaught split: option.split)

subsection \<open>Behaviour the spec leaves open\<close>

lemma handler_string_cpf_order:
  assumes "tok \<noteq> []" and "s \<noteq> []" and "amount_cents64 v = Inr a" and "expiration_date t2 = Inr x"
  shows "calls (handler (Some tok) fetch t1 t2
            \<lparr>req_method = ''POST'', req_body = JObj [(''valor'', v), (''cpf'', JStr s)]\<rparr>)
         = [provider_request tok (order_json t1 JUndef (strip_non_digits s) a a x)]"
proof -
  have "destructure (JObj [(''valor'', v), (''cpf'', JStr s)]) = Inr (v, JUndef, JStr s)"
    by (simp add: destructure_def get_field_def)
  moreover have "build_order t1 t2 v JUndef (JStr s) = Inr (order_json t1 JUndef (strip_non_digits s) a a x)"
    using assms(3,4) by (simp add: build_order_def tax_id_of_def strip_non_digits_def)
  ultimately show ?thesis
    using assms(1,2) by (simp add: handler_reaches_order)
qed

text \<open>
  C14: an amount that ToNumber maps to \<open>NaN\<close>, a missing \<open>valor\<close> or a
  string written with a decimal comma such as \<open>"10,50"\<close>, is not refused:
  the order is sent with \<open>null\<close> as the unit amount and as the QR-code amount.
\<close>

theorem handler_nan_amount_sends_null:
  assumes "tok \<noteq> []" and "s \<noteq> []" and "to_number v = Inr NaN" and "expiration_date t2 = Inr x"
  shows "map ob_body (calls (handler (Some tok) fetch t1 t2
            \<lparr>req_method = ''POST'', req_body = JObj [(''valor'', v), (''cpf'', JStr s)]\<rparr>)) =
         [JObj [(''reference_id'', JStr (''PEDIDO-'' @ int_to_dec t1)),
                (''customer'', JObj [(''name'', JStr ''Cliente''), (''email'', JStr ''cliente@loja.com''),
                                     (''tax_id'', JStr (strip_non_digits s))]),
                (''items'', JArr [JObj [(''name'', JStr ''Salgados Tia Ana''), (''quantity'', JNum (Fin 1)),
                                        (''unit_amount'', JNull)]]),
                (''qr_codes'', JArr [JObj [(''amount'', JObj [(''value'', JNull)]),
                                          (''expiration_date'', JStr x)]])]]"
  using handler_string_cpf_order [OF assms(1,2) amount_cents64_nan [OF assms(3)] assms(4)]
  by (simp add: provider_request_def order_json_def customer_name_def undef_to_null_def)

theorem handler_nan_amount_sends_null_witness:
  "map ob_body (calls (handler (Some ''tok'') (\<lambda>_. Replied (Inr JNull)) 0 0
     \<lparr>req_method = ''POST'', req_body = JObj [(''valor'', JStr ''10,50''), (''cpf'', JStr ''123.456.789-00'')]\<rparr>)) =
   [JObj [(''reference_id'', JStr (''PEDIDO-'' @ int_to_dec 0)),
          (''customer'', JObj [(''name'', JStr ''Cliente''), (''email'', JStr ''cliente@loja.com''),
                               (''tax_id'', JStr (strip_non_digits ''123.456.789-00''))]),
          (''items'', JArr [JObj [(''name'', JStr ''Salgados Tia Ana''), (''quantity'', JNum (Fin 1)),
                                  (''unit_amount'', JNull)]]),
          (''qr_codes'', JArr [JObj [(''amount'', JObj [(''value'', JNull)]),
                                    (''expiration_date'', JStr ''1970-01-01T01:00:00.000Z'')]])]]"
proof -
  have n: "to_number (JStr ''10,50'') = Inr NaN" by code_simp
  have e: "expiration_date 0 = Inr ''1970-01-01T01:00:00.000Z''" by code_simp
  show ?thesis by (rule handler_nan_amount_sends_null [OF _ _ n e]) simp_all
qed



text \<open>
  C16: an amount of magnitude \<open>10\<^sup>3\<^sup>0\<^sup>7\<close> or more (\<open>"1e307"\<close>, \<open>"-1e400"\<close>) is not
  refused either: \<open>valor * 100\<close> overflows to an infinity in binary64, which
  \<open>JSON.stringify\<close> writes as \<open>null\<close>, and the order is sent with \<open>null\<close> as the
  unit amount and as the QR-code amount (spec section 9, "absurdly large").
\<close>

theorem handler_huge_amount_sends_null:
  assumes "tok \<noteq> []" and "s \<noteq> []" and "to_number v = Inr (Fin q)" and "10 ^ 307 \<le> \<bar>q\<bar>"
    and "expiration_date t2 = Inr x"
  shows "map ob_body (calls (handler (Some tok) fetch t1 t2
            \<lparr>req_method = ''POST'', req_body = JObj [(''valor'', v), (''cpf'', JStr s)]\<rparr>)) =
         [JObj [(''reference_id'', JStr (''PEDIDO-'' @ int_to_dec t1)),
                (''customer'', JObj [(''name'', JStr ''Cliente''), (''email'', JStr ''cliente@loja.com''),
                                     (''tax_id'', JStr (strip_non_digits s))]),
                (''items'', JArr [JObj [(''name'', JStr ''Salgados Tia Ana''), (''quantity'', JNum (Fin 1)),
                                        (''unit_amount'', JNull)]]),
                (''qr_codes'', JArr [JObj [(''amount'', JObj [(''value'', JNull)]),
                                          (''expiration_date'', JStr x)]])]]"
  using handler_string_cpf_order [OF assms(1,2) amount_cents64_huge [OF assms(3,4)] assms(5)]
  by (simp add: provider_request_def order_json_def customer_name_def undef_to_null_def)

theorem handler_huge_amount_sends_null_witness:
  "map ob_body (calls (handler (Some ''tok'') (\<lambda>_. Replied (Inr JNull)) 0 0
     \<lparr>req_method = ''POST'', req_body = JObj [(''valor'', JStr ''1e307''), (''cpf'', JStr ''123.456.789-00'')]\<rparr>)) =
   [JObj [(''reference_id'', JStr (''PEDIDO-'' @ int_to_dec 0)),
          (''customer'', JObj [(''name'', JStr ''Cliente''), (''email'', JStr ''cliente@loja.com''),
                               (''tax_id'', JStr (strip_non_digits ''123.456.789-00''))]),
          (''items'', JArr [JObj [(''name'', JStr ''Salgados Tia Ana''), (''quantity'', JNum (Fin 1)),
                                  (''unit_amount'', JNull)]]),
          (''qr_codes'', JArr [JObj [(''amount'', JObj [(''value'', JNull)]),
                                    (''expiration_date'', JStr ''1970-01-01T01:00:00.000Z'')]])]]"
proof -
  have n: "to_number (JStr ''1e307'') = Inr (Fin (10 ^ 307))" by code_simp
  have b: "10 ^ 307 \<le> \<bar>10 ^ 307 :: rat\<bar>" by simp
  have e: "expiration_date 0 = Inr ''1970-01-01T01:00:00.000Z''" by code_simp
  show ?thesis by (rule handler_huge_amount_sends_null [OF _ _ n b e]) simp_all
qed



text \<open>
  C18: a \<open>cpf\<close> that is truthy but not a string (a JSON number such as
  \<open>12345678900\<close>, an array, an object) passes the presence check and then makes
  \<open>cpf.replace\<close> throw: the handler answers 500 with the TypeError's message
  instead of a client error, and sends nothing.
\<close>

theorem handler_non_string_cpf:
  assumes "tok \<noteq> []" and "destructure b = Inr (v, n, c)" and "truthy c" and "\<forall>s. c \<noteq> JStr s"
  shows "handler (Some tok) fetch t1 t2 \<lparr>req_method = ''POST'', req_body = b\<rparr> =
           \<lparr>outcome = Responded (reply 500 (error_body ''cpf.replace is not a function'')),
            logs = [LogInternal (TypeError ''cpf.replace is not a function'')], calls = []\<rparr>"
  using assms tax_id_of_non_string [OF assms(4)]
  by (simp add: handler_def handle_post_def create_order_cases build_order_def internal_error_def)

theorem handler_non_string_cpf_witness:
  "handler (Some ''tok'') (\<lambda>_. Replied (Inr JNull)) 0 0
     \<lparr>req_method = ''POST'', req_body = JObj [(''valor'', JNum (Fin 10)), (''cpf'', JNum (Fin 12345678900))]\<rparr> =
   \<lparr>outcome = Responded (reply 500 (error_body ''cpf.replace is not a function'')),
    logs = [LogInternal (TypeError ''cpf.replace is not a function'')], calls = []\<rparr>"
proof -
  have d: "destructure (JObj [(''valor'', JNum (Fin 10)), (''cpf'', JNum (Fin 12345678900))]) =
           Inr (JNum (Fin 10), JUndef, JNum (Fin 12345678900))"
    by (simp add: destructure_def get_field_def)
  show ?thesis by (rule handler_non_string_cpf [OF _ d]) simp_all
qed

text \<open>
  C23: a tax id that is present but has no digit (\<open>"abc"\<close>, \<open>"---"\<close>)
  passes the check of line 28, since a non-empty string is truthy, and the
  order is sent with an empty tax id: the regular expression of line 39
  strips everything and nothing checks the result.
\<close>

theorem handler_cpf_without_digits:
  assumes "tok \<noteq> []" and "s \<noteq> []" and "\<forall>c \<in> set s. \<not> is_dec_digit c"
    and "amount_cents64 v = Inr a" and "expiration_date t2 = Inr x"
  shows "calls (handler (Some tok) fetch t1 t2
            \<lparr>req_method = ''POST'', req_body = JObj [(''valor'', v), (''cpf'', JStr s)]\<rparr>)
         = [provider_request tok (order_json t1 JUndef [] a a x)]"
proof -
  have "strip_non_digits s = []" using assms(3) by (simp add: strip_non_digits_def filter_empty_conv)
  with handler_string_cpf_order [OF assms(1,2,4,5)] show ?thesis by simp
qed

theorem handler_cpf_without_digits_witness:
  "calls (handler (Some ''tok'') (\<lambda>_. Replied (Inr JNull)) 0 0
            \<lparr>req_method = ''POST'', req_body = JObj [(''valor'', JNum (Fin 1)), (''cpf'', JStr ''abc'')]\<rparr>)
   = [provider_request ''tok'' (order_json 0 JUndef [] (Fin 100) (Fin 100) ''1970-01-01T01:00:00.000Z'')]"
proof -
  have c: "\<forall>c \<in> set ''abc''. \<not> is_dec_digit c" by (simp add: is_dec_digit_def)
  have a: "amount_cents64 (JNum (Fin 1)) = Inr (Fin 100)" by code_simp
  have e: "expiration_date 0 = Inr ''1970-01-01T01:00:00.000Z''" by code_simp
  show ?thesis by (rule handler_cpf_without_digits [OF _ _ c a e]) simp_all
qed

end
